theory Spec2Isabelle
  imports Complex_Main "HOL-Library.FSet" "HOL-Library.Char_ord" "HOL-Library.List_Lexorder"
begin

unbundle bit_operations_syntax

section \<open>Conventions of the embedding\<close>

text \<open>
  The development embeds the resilience and deduplication layer of the scraper:
  \<^verbatim>\<open>processors/duplicate_detector.py\<close>, \<^verbatim>\<open>utils/retry_handler.py\<close> and
  \<^verbatim>\<open>utils/rate_limiter.py\<close>.

  \<^item> A Python \<^verbatim>\<open>str\<close> is a \<^typ>\<open>string\<close>; the strings of interest are hex digests, and a
    character is read as its ASCII code.
  \<^item> A Python \<^verbatim>\<open>int\<close> is an \<^typ>\<open>int\<close>; a counter that starts at 0 and is only ever
    incremented is a \<^typ>\<open>nat\<close>.
  \<^item> A Python \<^verbatim>\<open>float\<close> is a \<^typ>\<open>real\<close>: the rounding of binary64 arithmetic is not
    modelled. The float operations of these files that raise are: \<^verbatim>\<open>**\<close>, on
    overflow, and \<^verbatim>\<open>/\<close>, on a zero divisor. Both raise in the model as well, since that
    changes control flow.
  \<^item> The message of an exception plays no role; where Python formats a number into it,
    the message is shortened.
  \<^item> An exception is a value of \<^verbatim>\<open>exn\<close>; a function that can raise returns a sum,
    \<open>Inl\<close> the exception raised.
  \<^item> \<^verbatim>\<open>time.time()\<close> reads an explicit clock and \<^verbatim>\<open>time.sleep(d)\<close> advances it by \<open>d\<close>.
\<close>

section \<open>Exceptions\<close>

text \<open>
  An exception carries the method resolution order of its class (the names of the class
  and of all its bases, as \<^verbatim>\<open>type(e).__mro__\<close> lists them) and its message.
  \<^verbatim>\<open>isinstance(e, T)\<close> holds when \<open>T\<close> is in that list, and for a tuple of classes when
  it holds for one of them.
\<close>

datatype exn = Exn (exn_mro: "string list") (exn_msg: string)

definition isinstance :: "exn \<Rightarrow> string \<Rightarrow> bool" where
  "isinstance e cls = List.member (exn_mro e) cls"

definition isinstance_tuple :: "exn \<Rightarrow> string list \<Rightarrow> bool" where
  "isinstance_tuple e clss = list_ex (isinstance e) clss"

definition ValueError :: "string \<Rightarrow> exn" where
  "ValueError m = Exn [''ValueError'', ''Exception'', ''BaseException'', ''object''] m"

definition TypeError :: "string \<Rightarrow> exn" where
  "TypeError m = Exn [''TypeError'', ''Exception'', ''BaseException'', ''object''] m"

definition OverflowError :: "string \<Rightarrow> exn" where
  "OverflowError m =
     Exn [''OverflowError'', ''ArithmeticError'', ''Exception'', ''BaseException'', ''object''] m"

definition ZeroDivisionError :: "string \<Rightarrow> exn" where
  "ZeroDivisionError m =
     Exn [''ZeroDivisionError'', ''ArithmeticError'', ''Exception'', ''BaseException'', ''object''] m"

definition PlainException :: "string \<Rightarrow> exn" where
  "PlainException m = Exn [''Exception'', ''BaseException'', ''object''] m"

section \<open>DuplicateDetector\<close>

subsection \<open>Hex decoding and Hamming distance\<close>

text \<open>
  \<^verbatim>\<open>int(s, 16)\<close> on an ASCII string: surrounding whitespace is skipped, then an optional
  sign, then an optional \<^verbatim>\<open>0x\<close> or \<^verbatim>\<open>0X\<close> (after which one underscore may stand), then at
  least one hex digit, where single underscores may separate digits; nothing but
  whitespace may follow. Anything else raises \<^verbatim>\<open>ValueError\<close>, which is \<open>None\<close> here.
\<close>

definition py_isspace :: "char \<Rightarrow> bool" where
  "py_isspace c = (let n = (of_char c :: nat) in (9 \<le> n \<and> n \<le> 13) \<or> n = 32)"

definition hex_digit_value :: "char \<Rightarrow> nat option" where
  "hex_digit_value c =
     (let n = (of_char c :: nat) in
      if 48 \<le> n \<and> n \<le> 57 then Some (n - 48)
      else if 97 \<le> n \<and> n \<le> 102 then Some (n - 87)
      else if 65 \<le> n \<and> n \<le> 70 then Some (n - 55)
      else None)"

text \<open>
  The digit scanner: \<open>prev_us\<close> says that the previous character was an underscore,
  \<open>seen\<close> that a character has been consumed. It returns the value read and the rest
  of the string, at the first character that is neither a digit nor an underscore.
\<close>

fun long_from_string_base :: "bool \<Rightarrow> bool \<Rightarrow> nat \<Rightarrow> string \<Rightarrow> (nat \<times> string) option" where
  "long_from_string_base prev_us seen acc [] =
     (if prev_us \<or> \<not> seen then None else Some (acc, []))"
| "long_from_string_base prev_us seen acc (c # cs) =
     (if c = CHR ''_'' then
        (if prev_us \<or> \<not> seen then None else long_from_string_base True True acc cs)
      else
        (case hex_digit_value c of
           Some v \<Rightarrow> long_from_string_base False True (16 * acc + v) cs
         | None \<Rightarrow> (if prev_us \<or> \<not> seen then None else Some (acc, c # cs))))"

definition strip_prefix_0x :: "string \<Rightarrow> string" where
  "strip_prefix_0x s =
     (case s of
        c0 # c1 # rest \<Rightarrow>
          (if c0 = CHR ''0'' \<and> (c1 = CHR ''x'' \<or> c1 = CHR ''X'') then
             (case rest of
                u # rest' \<Rightarrow> (if u = CHR ''_'' then rest' else rest)
              | [] \<Rightarrow> rest)
           else s)
      | _ \<Rightarrow> s)"

definition py_int16 :: "string \<Rightarrow> int option" where
  "py_int16 s =
     (let s1 = dropWhile py_isspace s;
          (neg, s2) = (case s1 of
                         c # cs \<Rightarrow> (if c = CHR ''+'' then (False, cs)
                                    else if c = CHR ''-'' then (True, cs)
                                    else (False, s1))
                       | [] \<Rightarrow> (False, s1));
          s3 = strip_prefix_0x s2
      in case long_from_string_base False False 0 s3 of
           None \<Rightarrow> None
         | Some (v, rest) \<Rightarrow>
             (if dropWhile py_isspace rest = [] then Some (if neg then - int v else int v)
              else None))"

text \<open>\<^verbatim>\<open>bin(x).count('1')\<close>: the number of one bits of the magnitude of \<open>x\<close>.\<close>

fun bit_count :: "nat \<Rightarrow> nat" where
  "bit_count n = (if n = 0 then 0 else n mod 2 + bit_count (n div 2))"

declare bit_count.simps [simp del]

definition bin_count_ones :: "int \<Rightarrow> nat" where
  "bin_count_ones x = bit_count (nat \<bar>x\<bar>)"

text \<open>
  \<^verbatim>\<open>_hamming_distance\<close>: \<open>None\<close> stands for \<^verbatim>\<open>float('inf')\<close>, returned for strings of
  different lengths and when a string is not a hex numeral.
\<close>

definition hamming_distance :: "string \<Rightarrow> string \<Rightarrow> nat option" where
  "hamming_distance hash1 hash2 =
     (if length hash1 \<noteq> length hash2 then None
      else case py_int16 hash1 of
             None \<Rightarrow> None
           | Some int1 \<Rightarrow>
               (case py_int16 hash2 of
                  None \<Rightarrow> None
                | Some int2 \<Rightarrow> Some (bin_count_ones (int1 XOR int2))))"

text \<open>\<^verbatim>\<open>distance <= similarity_threshold\<close>, where infinity is below no integer.\<close>

definition distance_le :: "nat option \<Rightarrow> int \<Rightarrow> bool" where
  "distance_le d t = (case d of None \<Rightarrow> False | Some n \<Rightarrow> int n \<le> t)"

subsection \<open>State and operations\<close>

text \<open>
  \<^verbatim>\<open>perceptual_hashes\<close> is a dictionary, kept as the list of its items in insertion
  order; \<^verbatim>\<open>exact_hashes\<close> is a finite set.
\<close>

record detector =
  exact_hashes :: "string fset"
  perceptual_hashes :: "(string \<times> string list) list"
  enable_perceptual_hashing :: bool
  duplicate_count :: nat
  total_checked :: nat

definition init_detector :: "bool \<Rightarrow> detector" where
  "init_detector enable =
     \<lparr> exact_hashes = {||}, perceptual_hashes = [], enable_perceptual_hashing = enable,
       duplicate_count = 0, total_checked = 0 \<rparr>"

text \<open>The truth value of an \<^verbatim>\<open>Optional[str]\<close>: neither \<^verbatim>\<open>None\<close> nor the empty string.\<close>

definition truthy :: "string option \<Rightarrow> bool" where
  "truthy p = (case p of None \<Rightarrow> False | Some s \<Rightarrow> s \<noteq> [])"

text \<open>\<^verbatim>\<open>d[k].append(v)\<close> on a \<^verbatim>\<open>defaultdict(list)\<close>: a missing key is created, last.\<close>

fun dict_append :: "('k \<times> 'v list) list \<Rightarrow> 'k \<Rightarrow> 'v \<Rightarrow> ('k \<times> 'v list) list" where
  "dict_append [] k v = [(k, [v])]"
| "dict_append ((k', vs) # rest) k v =
     (if k' = k then (k', vs @ [v]) # rest else (k', vs) # dict_append rest k v)"

definition add_hash :: "detector \<Rightarrow> string \<Rightarrow> string option \<Rightarrow> detector" where
  "add_hash d exact_hash perceptual_hash =
     (let d1 = d\<lparr> exact_hashes := finsert exact_hash (exact_hashes d) \<rparr>
      in if enable_perceptual_hashing d1 \<and> truthy perceptual_hash then
           d1\<lparr> perceptual_hashes :=
                 dict_append (perceptual_hashes d1) (the perceptual_hash) exact_hash \<rparr>
         else d1)"

text \<open>The loop of \<^verbatim>\<open>is_duplicate\<close> over the items of \<^verbatim>\<open>perceptual_hashes\<close>.\<close>

fun similar_in :: "string \<Rightarrow> int \<Rightarrow> (string \<times> string list) list \<Rightarrow> bool" where
  "similar_in perceptual_hash similarity_threshold [] = False"
| "similar_in perceptual_hash similarity_threshold ((existing_phash, existing_hashes) # rest) =
     (if distance_le (hamming_distance perceptual_hash existing_phash) similarity_threshold
      then True
      else similar_in perceptual_hash similarity_threshold rest)"

definition is_duplicate :: "detector \<Rightarrow> string \<Rightarrow> string option \<Rightarrow> int \<Rightarrow> bool \<times> detector" where
  "is_duplicate d exact_hash perceptual_hash similarity_threshold =
     (let d1 = d\<lparr> total_checked := total_checked d + 1 \<rparr>
      in if exact_hash |\<in>| exact_hashes d1 then
           (True, d1\<lparr> duplicate_count := duplicate_count d1 + 1 \<rparr>)
         else if enable_perceptual_hashing d1 \<and> truthy perceptual_hash
                 \<and> perceptual_hashes d1 \<noteq> []
                 \<and> similar_in (the perceptual_hash) similarity_threshold (perceptual_hashes d1)
         then (True, d1\<lparr> duplicate_count := duplicate_count d1 + 1 \<rparr>)
         else (False, d1))"

definition check_and_add :: "detector \<Rightarrow> string \<Rightarrow> string option \<Rightarrow> int \<Rightarrow> bool \<times> detector" where
  "check_and_add d exact_hash perceptual_hash similarity_threshold =
     (case is_duplicate d exact_hash perceptual_hash similarity_threshold of
        (True, d1) \<Rightarrow> (True, d1)
      | (False, d1) \<Rightarrow> (False, add_hash d1 exact_hash perceptual_hash))"

text \<open>The list stored under a key of \<^verbatim>\<open>perceptual_hashes\<close>, empty for a missing key.\<close>

definition bucket :: "detector \<Rightarrow> string \<Rightarrow> string list" where
  "bucket d k = (case map_of (perceptual_hashes d) k of None \<Rightarrow> [] | Some hs \<Rightarrow> hs)"

text \<open>
  A sequence of \<^verbatim>\<open>check_and_add\<close> calls with the same exact hash, each with its own
  perceptual hash and threshold; the results are returned in call order.
\<close>

fun check_and_add_repeatedly ::
  "detector \<Rightarrow> string \<Rightarrow> (string option \<times> int) list \<Rightarrow> bool list \<times> detector" where
  "check_and_add_repeatedly d h [] = ([], d)"
| "check_and_add_repeatedly d h ((p, t) # rest) =
     (case check_and_add d h p t of
        (r, d1) \<Rightarrow> (case check_and_add_repeatedly d1 h rest of (rs, d2) \<Rightarrow> (r # rs, d2)))"

subsection \<open>Statistics, export and import\<close>

text \<open>
  \<^verbatim>\<open>round(x, 2)\<close>: the nearest multiple of 1/100, a tie going to the even neighbour.
  On floats a tie only arises when the float itself lies halfway; on reals it does
  whenever the exact quotient does.
\<close>

definition round_half_even :: "real \<Rightarrow> int" where
  "round_half_even x =
     (let f = \<lfloor>x\<rfloor>; r = x - of_int f
      in if r < 1 / 2 then f else if 1 / 2 < r then f + 1 else if even f then f else f + 1)"

definition py_round2 :: "real \<Rightarrow> real" where
  "py_round2 x = of_int (round_half_even (x * 100)) / 100"

record statistics =
  stat_total_unique_hashes :: nat
  stat_total_perceptual_hashes :: nat
  stat_duplicate_count :: nat
  stat_total_checked :: nat
  stat_duplicate_rate :: real

definition get_statistics :: "detector \<Rightarrow> statistics" where
  "get_statistics d =
     \<lparr> stat_total_unique_hashes = fcard (exact_hashes d),
       stat_total_perceptual_hashes = length (perceptual_hashes d),
       stat_duplicate_count = duplicate_count d,
       stat_total_checked = total_checked d,
       stat_duplicate_rate =
         (if total_checked d > 0
          then py_round2 (real (duplicate_count d) / real (total_checked d) * 100)
          else 0) \<rparr>"

text \<open>
  The exported structure is a dictionary; a field is \<open>None\<close> when its key is missing,
  which \<^verbatim>\<open>import_hashes\<close> reads with a default. \<^verbatim>\<open>list(self.exact_hashes)\<close> lists the
  set in an order Python does not specify; here it is the sorted order, and
  \<^verbatim>\<open>import_hashes\<close> builds a set from the list again, whatever its order.
  \<^verbatim>\<open>dict(self.perceptual_hashes)\<close> copies the dictionary but not its lists, which the
  importing detector then shares with the exporting one; the model copies values, and
  agrees with the code on everything that happens before one of the two detectors
  appends to a shared list.
\<close>

record export_data =
  data_exact_hashes :: "string list option"
  data_perceptual_hashes :: "(string \<times> string list) list option"
  data_statistics :: "statistics option"

definition export_hashes :: "detector \<Rightarrow> export_data" where
  "export_hashes d =
     \<lparr> data_exact_hashes = Some (sorted_list_of_fset (exact_hashes d)),
       data_perceptual_hashes = Some (perceptual_hashes d),
       data_statistics = Some (get_statistics d) \<rparr>"

definition import_hashes :: "detector \<Rightarrow> export_data \<Rightarrow> detector" where
  "import_hashes d data =
     d\<lparr> exact_hashes :=
          fset_of_list (case data_exact_hashes data of None \<Rightarrow> [] | Some xs \<Rightarrow> xs),
        perceptual_hashes :=
          (case data_perceptual_hashes data of None \<Rightarrow> [] | Some m \<Rightarrow> m) \<rparr>"

section \<open>RetryHandler\<close>

record retry_handler =
  max_retries :: int
  retry_base_delay :: real
  max_delay :: real
  exponential_base :: real
  jitter :: bool
  retryable_exceptions :: "string list option"
  total_attempts :: nat
  total_retries :: nat
  total_failures :: nat

definition init_retry_handler ::
  "int \<Rightarrow> real \<Rightarrow> real \<Rightarrow> real \<Rightarrow> bool \<Rightarrow> string list option \<Rightarrow> retry_handler" where
  "init_retry_handler mr bd md eb j re =
     \<lparr> max_retries = mr, retry_base_delay = bd, max_delay = md, exponential_base = eb,
       jitter = j, retryable_exceptions = re,
       total_attempts = 0, total_retries = 0, total_failures = 0 \<rparr>"

text \<open>
  \<^verbatim>\<open>x ** n\<close> on a float raises \<^verbatim>\<open>OverflowError\<close> when the result leaves the binary64
  range: its magnitude would round to infinity, which happens from
  \<open>2 ^ 1024 - 2 ^ 970\<close> on.
\<close>

definition float_overflow_threshold :: real where
  "float_overflow_threshold = 2 ^ 1024 - 2 ^ 970"

definition float_pow :: "real \<Rightarrow> nat \<Rightarrow> exn + real" where
  "float_pow x n =
     (if float_overflow_threshold \<le> \<bar>x ^ n\<bar>
      then Inl (OverflowError ''(34, Numerical result out of range)'')
      else Inr (x ^ n))"

text \<open>
  \<^verbatim>\<open>random.uniform(a, b)\<close> is \<open>a + (b - a) * u\<close> for the sample \<open>u\<close> of
  \<^verbatim>\<open>random.random()\<close>, which the environment supplies.
\<close>

definition random_uniform :: "real \<Rightarrow> real \<Rightarrow> real \<Rightarrow> real" where
  "random_uniform a b u = a + (b - a) * u"

definition calculate_delay :: "retry_handler \<Rightarrow> nat \<Rightarrow> real \<Rightarrow> exn + real" where
  "calculate_delay h attempt u =
     (case float_pow (exponential_base h) attempt of
        Inl e \<Rightarrow> Inl e
      | Inr pw \<Rightarrow>
          (let delay = min (retry_base_delay h * pw) (max_delay h);
               delay' = (if jitter h
                         then (let jitter_range = delay * 0.25
                               in delay + random_uniform (- jitter_range) jitter_range u)
                         else delay)
           in Inr (max 0 delay')))"

definition is_retryable :: "retry_handler \<Rightarrow> exn \<Rightarrow> bool" where
  "is_retryable h e =
     (case retryable_exceptions h of None \<Rightarrow> True | Some clss \<Rightarrow> isinstance_tuple e clss)"

text \<open>
  The result of a run of \<^verbatim>\<open>execute_with_retry\<close>: what it returns or raises, the handler
  with its statistics, and what the run did to its environment, namely how many times
  it invoked the operation and the delays it slept, in order.
\<close>

record 'r retry_run =
  outcome :: "exn + 'r"
  handler :: retry_handler
  invocations :: nat
  sleeps :: "real list"

text \<open>The statement after the loop, \<^verbatim>\<open>raise last_exception\<close>; raising \<^verbatim>\<open>None\<close> is a type error.\<close>

definition raise_last_exception ::
  "retry_handler \<Rightarrow> exn option \<Rightarrow> nat \<Rightarrow> real list \<Rightarrow> 'r retry_run" where
  "raise_last_exception h last_exception calls slept =
     \<lparr> outcome = (case last_exception of
                    None \<Rightarrow> Inl (TypeError ''exceptions must derive from BaseException'')
                  | Some e \<Rightarrow> Inl e),
       handler = h, invocations = calls, sleeps = slept \<rparr>"

text \<open>
  The loop \<^verbatim>\<open>for attempt in range(self.max_retries)\<close>, by recursion on the attempts that
  remain. The operation is given by the outcomes of its successive invocations:
  \<open>func i\<close> is what invocation number \<open>i\<close> of this run returns (\<open>Inr\<close>) or raises
  (\<open>Inl\<close>); \<open>rnd attempt\<close> is the random sample drawn during an attempt.
  \<^verbatim>\<open>except Exception\<close> catches the instances of \<^verbatim>\<open>Exception\<close> only; any other exception
  leaves the function at once. The delay is never negative, so \<^verbatim>\<open>time.sleep\<close> accepts it.
\<close>

fun retry_loop ::
  "(nat \<Rightarrow> exn + 'r) \<Rightarrow> (nat \<Rightarrow> real) \<Rightarrow> nat list \<Rightarrow> retry_handler \<Rightarrow> exn option \<Rightarrow> nat \<Rightarrow>
   real list \<Rightarrow> 'r retry_run" where
  "retry_loop func rnd [] h last_exception calls slept =
     raise_last_exception h last_exception calls slept"
| "retry_loop func rnd (attempt # rest) h last_exception calls slept =
     (let h1 = h\<lparr> total_attempts := total_attempts h + 1 \<rparr>
      in case func calls of
           Inr result \<Rightarrow>
             \<lparr> outcome = Inr result, handler = h1, invocations = calls + 1, sleeps = slept \<rparr>
         | Inl e \<Rightarrow>
             if \<not> isinstance e ''Exception'' then
               \<lparr> outcome = Inl e, handler = h1, invocations = calls + 1, sleeps = slept \<rparr>
             else if \<not> is_retryable h1 e then
               \<lparr> outcome = Inl e, handler = h1, invocations = calls + 1, sleeps = slept \<rparr>
             else if max_retries h1 - 1 \<le> int attempt then
               raise_last_exception (h1\<lparr> total_failures := total_failures h1 + 1 \<rparr>)
                 (Some e) (calls + 1) slept
             else
               (let h2 = h1\<lparr> total_retries := total_retries h1 + 1 \<rparr>
                in case calculate_delay h2 attempt (rnd attempt) of
                     Inl err \<Rightarrow>
                       \<lparr> outcome = Inl err, handler = h2, invocations = calls + 1,
                         sleeps = slept \<rparr>
                   | Inr delay \<Rightarrow>
                       retry_loop func rnd rest h2 (Some e) (calls + 1) (slept @ [delay])))"

definition execute_with_retry ::
  "retry_handler \<Rightarrow> (nat \<Rightarrow> exn + 'r) \<Rightarrow> (nat \<Rightarrow> real) \<Rightarrow> 'r retry_run" where
  "execute_with_retry h func rnd =
     retry_loop func rnd [0..<nat (max_retries h)] h None 0 []"

section \<open>CircuitBreaker\<close>

datatype breaker_state = CLOSED | OPEN | HALF_OPEN

record circuit_breaker =
  failure_threshold :: int
  recovery_timeout :: real
  expected_exception :: string
  failure_count :: int
  last_failure_time :: "real option"
  state :: breaker_state

definition init_circuit_breaker :: "int \<Rightarrow> real \<Rightarrow> string \<Rightarrow> circuit_breaker" where
  "init_circuit_breaker ft rt ee =
     \<lparr> failure_threshold = ft, recovery_timeout = rt, expected_exception = ee,
       failure_count = 0, last_failure_time = None, state = CLOSED \<rparr>"

definition record_failure :: "circuit_breaker \<Rightarrow> real \<Rightarrow> circuit_breaker" where
  "record_failure b now =
     (let b1 = b\<lparr> failure_count := failure_count b + 1, last_failure_time := Some now \<rparr>
      in if failure_threshold b1 \<le> failure_count b1 then b1\<lparr> state := OPEN \<rparr> else b1)"

definition should_attempt_reset :: "circuit_breaker \<Rightarrow> real \<Rightarrow> bool" where
  "should_attempt_reset b now =
     (case last_failure_time b of
        None \<Rightarrow> False
      | Some t \<Rightarrow> recovery_timeout b \<le> now - t)"

definition reset :: "circuit_breaker \<Rightarrow> circuit_breaker" where
  "reset b = b\<lparr> failure_count := 0, state := CLOSED, last_failure_time := None \<rparr>"

text \<open>
  The first statement of \<^verbatim>\<open>call\<close>: an open breaker either moves to \<^verbatim>\<open>HALF_OPEN\<close> or
  raises the circuit-open exception.
\<close>

definition check_recovery :: "circuit_breaker \<Rightarrow> real \<Rightarrow> exn + circuit_breaker" where
  "check_recovery b now =
     (if state b = OPEN then
        (if should_attempt_reset b now then Inr (b\<lparr> state := HALF_OPEN \<rparr>)
         else Inl (PlainException ''Circuit breaker is OPEN. Service unavailable.''))
      else Inr b)"

text \<open>
  The result of \<^verbatim>\<open>call\<close>: what it returns or raises, the breaker, the clock, and whether
  the operation was invoked. The operation takes the clock at its invocation and gives
  its outcome and the clock at its return.
\<close>

record 'r call_result =
  call_outcome :: "exn + 'r"
  breaker :: circuit_breaker
  clock :: real
  invoked :: bool

definition call :: "circuit_breaker \<Rightarrow> (real \<Rightarrow> (exn + 'r) \<times> real) \<Rightarrow> real \<Rightarrow> 'r call_result" where
  "call b func now =
     (case check_recovery b now of
        Inl e \<Rightarrow> \<lparr> call_outcome = Inl e, breaker = b, clock = now, invoked = False \<rparr>
      | Inr b1 \<Rightarrow>
          (case func now of
             (Inr result, now') \<Rightarrow>
               \<lparr> call_outcome = Inr result,
                 breaker = (if state b1 = HALF_OPEN then reset b1 else b1),
                 clock = now', invoked = True \<rparr>
           | (Inl e, now') \<Rightarrow>
               (if isinstance e (expected_exception b1) then
                  \<lparr> call_outcome = Inl e, breaker = record_failure b1 now', clock = now',
                    invoked = True \<rparr>
                else
                  \<lparr> call_outcome = Inl e, breaker = b1, clock = now', invoked = True \<rparr>)))"

section \<open>RateLimiter\<close>

text \<open>
  The attributes \<^verbatim>\<open>tokens\<close> and \<^verbatim>\<open>last_refill_time\<close> exist only after the first call of
  \<^verbatim>\<open>wait_with_token_bucket\<close>: \<open>token_bucket\<close> is \<open>None\<close> until then, and the pair of
  the two afterwards. The lock is not modelled: calls do not overlap.
\<close>

record rate_limiter =
  requests_per_second :: real
  min_interval :: real
  base_delay :: real
  burst_size :: int
  last_request_time :: real
  request_times :: "real list"
  total_requests :: nat
  total_wait_time :: real
  token_bucket :: "(real \<times> real) option"

text \<open>Appending to a \<^verbatim>\<open>deque(maxlen=n)\<close> drops the oldest entries beyond \<open>n\<close>.\<close>

definition deque_append :: "nat \<Rightarrow> 'a list \<Rightarrow> 'a \<Rightarrow> 'a list" where
  "deque_append maxlen xs x = drop (length xs + 1 - maxlen) (xs @ [x])"

text \<open>
  The constructor: \<^verbatim>\<open>1.0 / requests_per_second\<close> raises for a zero rate, and
  \<^verbatim>\<open>burst_size or 1\<close> replaces both \<^verbatim>\<open>None\<close> and 0 by 1.
\<close>

definition init_rate_limiter :: "real \<Rightarrow> real \<Rightarrow> int option \<Rightarrow> exn + rate_limiter" where
  "init_rate_limiter rps bd bs =
     (if rps = 0 then Inl (ZeroDivisionError ''float division by zero'')
      else Inr \<lparr> requests_per_second = rps, min_interval = 1 / rps, base_delay = bd,
                 burst_size = (case bs of None \<Rightarrow> 1 | Some n \<Rightarrow> if n = 0 then 1 else n),
                 last_request_time = 0, request_times = [], total_requests = 0,
                 total_wait_time = 0, token_bucket = None \<rparr>)"

text \<open>
  \<^verbatim>\<open>wait_with_token_bucket\<close> takes the limiter and the clock, and gives what it returns
  or raises, the limiter and the clock afterwards. \<^verbatim>\<open>time.sleep\<close> refuses a negative
  duration, and the division raises for a zero rate; the bucket has been refilled by
  then.
\<close>

definition wait_with_token_bucket ::
  "rate_limiter \<Rightarrow> real \<Rightarrow> (exn + real) \<times> rate_limiter \<times> real" where
  "wait_with_token_bucket rl current_time =
     (let (tokens0, last_refill0) =
            (case token_bucket rl of
               None \<Rightarrow> (real_of_int (burst_size rl), current_time)
             | Some tb \<Rightarrow> tb);
          time_passed = current_time - last_refill0;
          tokens_to_add = time_passed * requests_per_second rl;
          tokens1 = min (real_of_int (burst_size rl)) (tokens0 + tokens_to_add);
          rl1 = rl\<lparr> token_bucket := Some (tokens1, current_time) \<rparr>
      in if 1 \<le> tokens1 then
           (let rl2 = rl1\<lparr> token_bucket := Some (tokens1 - 1, current_time) \<rparr>;
                waited = (if 0 < base_delay rl2 then base_delay rl2 else 0);
                now = current_time + waited
            in (Inr waited,
                rl2\<lparr> request_times := deque_append 100 (request_times rl2) now,
                     total_requests := total_requests rl2 + 1,
                     total_wait_time := total_wait_time rl2 + waited \<rparr>,
                now))
         else if requests_per_second rl1 = 0 then
           (Inl (ZeroDivisionError ''float division by zero''), rl1, current_time)
         else
           (let wait_time = (1 - tokens1) / requests_per_second rl1 + base_delay rl1
            in if wait_time < 0 then
                 (Inl (ValueError ''sleep length must be non-negative''), rl1, current_time)
               else
                 (let now = current_time + wait_time;
                      rl2 = rl1\<lparr> token_bucket := Some (0, now) \<rparr>
                  in (Inr wait_time,
                      rl2\<lparr> request_times := deque_append 100 (request_times rl2) now,
                           total_requests := total_requests rl2 + 1,
                           total_wait_time := total_wait_time rl2 + wait_time \<rparr>,
                      now))))"

text \<open>
  A run of calls of \<^verbatim>\<open>wait_with_token_bucket\<close>, each issued at the clock the previous
  one left: no time passes between them. The waits are returned in call order; the run
  stops at a call that raises.
\<close>

fun wait_repeatedly :: "nat \<Rightarrow> rate_limiter \<Rightarrow> real \<Rightarrow> (exn + real list) \<times> rate_limiter \<times> real" where
  "wait_repeatedly 0 rl now = (Inr [], rl, now)"
| "wait_repeatedly (Suc n) rl now =
     (case wait_with_token_bucket rl now of
        (Inl e, rl1, now1) \<Rightarrow> (Inl e, rl1, now1)
      | (Inr w, rl1, now1) \<Rightarrow>
          (case wait_repeatedly n rl1 now1 of
             (Inl e, rl2, now2) \<Rightarrow> (Inl e, rl2, now2)
           | (Inr ws, rl2, now2) \<Rightarrow> (Inr (w # ws), rl2, now2)))"

text \<open>The token count of a limiter, the full burst while the bucket does not exist yet.\<close>

definition tokens :: "rate_limiter \<Rightarrow> real" where
  "tokens rl =
     (case token_bucket rl of None \<Rightarrow> real_of_int (burst_size rl) | Some (t, _) \<Rightarrow> t)"

section \<open>AdaptiveRateLimiter\<close>








section \<open>Vocabulary of the specification\<close>

text \<open>
  A perceptual hash \<open>p\<close> matches a bucket key \<open>k\<close> under a threshold \<open>t\<close>: the two have
  the same length, both decode as hex numerals, and the Hamming distance of the
  decoded integers, the number of one bits of their exclusive or, is at most \<open>t\<close>.
\<close>

definition near_duplicate :: "string \<Rightarrow> string \<Rightarrow> int \<Rightarrow> bool" where
  "near_duplicate p k t =
     (length k = length p \<and>
      (case py_int16 p of
         None \<Rightarrow> False
       | Some a \<Rightarrow>
           (case py_int16 k of
              None \<Rightarrow> False
            | Some b \<Rightarrow> int (bin_count_ones (a XOR b)) \<le> t)))"

text \<open>The operation fails at each invocation with a failure that is caught and retryable.\<close>

definition always_fails_retryably :: "retry_handler \<Rightarrow> (nat \<Rightarrow> exn + 'r) \<Rightarrow> bool" where
  "always_fails_retryably h func =
     (\<forall>i. case func i of Inr _ \<Rightarrow> False
               | Inl e \<Rightarrow> isinstance e ''Exception'' \<and> is_retryable h e)"

text \<open>A real that stands for a finite float: it lies within the binary64 range.\<close>

definition finite_float :: "real \<Rightarrow> bool" where
  "finite_float x = (\<bar>x\<bar> < float_overflow_threshold)"




text \<open>
  The Hamming distance in the words of the glossary, the count of differing bits of two
  binary strings: the number of positions at which the binary numerals of two natural
  numbers differ, the shorter one padded with zeros. A plain hex string consists of hex
  digits only and is not empty; its value is read digit by digit.
\<close>

function differing_bits :: "nat \<Rightarrow> nat \<Rightarrow> nat" where
  "differing_bits a b =
     (if a = 0 \<and> b = 0 then 0
      else (if a mod 2 = b mod 2 then 0 else 1) + differing_bits (a div 2) (b div 2))"
  by pat_completeness auto
termination
  by (relation "measure (\<lambda>(a, b). a + b)") (simp, simp, linarith)

declare differing_bits.simps [simp del]

definition plain_hex :: "string \<Rightarrow> bool" where
  "plain_hex s = (s \<noteq> [] \<and> list_all (\<lambda>c. hex_digit_value c \<noteq> None) s)"

definition hex_value :: "string \<Rightarrow> nat" where
  "hex_value s =
     foldl (\<lambda>acc c. 16 * acc + (case hex_digit_value c of None \<Rightarrow> 0 | Some v \<Rightarrow> v)) 0 s"

section \<open>Properties of the DuplicateDetector\<close>

subsection \<open>Evaluation of the hash functions\<close>

lemma bit_count_0 [simp]: "bit_count 0 = 0"
  by (simp add: bit_count.simps)

lemma bit_count_pos: "0 < n \<Longrightarrow> bit_count n = n mod 2 + bit_count (n div 2)"
  by (subst bit_count.simps) simp

lemma bit_count_numeral [simp]:
  "bit_count (numeral k) = numeral k mod 2 + bit_count (numeral k div 2)"
  by (rule bit_count_pos) simp

lemma bit_count_1 [simp]: "bit_count (Suc 0) = 1"
  by (simp add: bit_count_pos)

lemmas hex_eval = hamming_distance_def py_int16_def py_isspace_def strip_prefix_0x_def
  hex_digit_value_def bin_count_ones_def distance_le_def

subsection \<open>The contract of \<^verbatim>\<open>check_and_add\<close>\<close>

lemma map_of_dict_append:
  "map_of (dict_append m k v) =
     (map_of m)(k \<mapsto> (case map_of m k of None \<Rightarrow> [] | Some vs \<Rightarrow> vs) @ [v])"
  by (induction m k v rule: dict_append.induct) (auto simp: fun_eq_iff)

lemma is_duplicate_hashes:
  "exact_hashes (snd (is_duplicate d h p t)) = exact_hashes d"
  "perceptual_hashes (snd (is_duplicate d h p t)) = perceptual_hashes d"
  "enable_perceptual_hashing (snd (is_duplicate d h p t)) = enable_perceptual_hashing d"
  by (simp_all add: is_duplicate_def Let_def)

lemma is_duplicate_member:
  "h |\<in>| exact_hashes d \<Longrightarrow> fst (is_duplicate d h p t)"
  by (simp add: is_duplicate_def Let_def)

lemma is_duplicate_empty:
  "exact_hashes d = {||} \<Longrightarrow> perceptual_hashes d = [] \<Longrightarrow> \<not> fst (is_duplicate d h p t)"
  by (simp add: is_duplicate_def Let_def)

lemma distance_le_near_duplicate:
  "distance_le (hamming_distance p k) t = near_duplicate p k t"
  by (auto simp: distance_le_def hamming_distance_def near_duplicate_def split: option.splits)

lemma similar_in_iff:
  "similar_in p t items = (\<exists>k \<in> fst ` set items. near_duplicate p k t)"
  by (induction p t items rule: similar_in.induct) (auto simp: distance_le_near_duplicate)

lemma py_int16_Nil: "py_int16 [] = None"
  by (simp add: py_int16_def strip_prefix_0x_def)

lemma near_duplicate_Nil: "\<not> near_duplicate [] k t"
  by (simp add: near_duplicate_def py_int16_Nil)

text \<open>
  The judgement of \<^verbatim>\<open>is_duplicate\<close>, in terms of the state alone: the exact hash is
  stored, or perceptual hashing is enabled, a perceptual hash is supplied and some bucket
  key matches it within the threshold.
\<close>

lemma is_duplicate_iff:
  "fst (is_duplicate d h p t) \<longleftrightarrow>
     h |\<in>| exact_hashes d
     \<or> (enable_perceptual_hashing d \<and> truthy p
        \<and> (\<exists>k \<in> fst ` set (perceptual_hashes d). near_duplicate (the p) k t))"
  by (cases "perceptual_hashes d = []") (auto simp add: is_duplicate_def Let_def similar_in_iff)

lemma check_and_add_fst:
  "fst (check_and_add d h p t) = fst (is_duplicate d h p t)"
  by (simp add: check_and_add_def split: prod.splits bool.splits)

lemma check_and_add_dup:
  "fst (check_and_add d h p t) \<Longrightarrow> snd (check_and_add d h p t) = snd (is_duplicate d h p t)"
  by (auto simp add: check_and_add_def split: prod.splits bool.splits)

lemma check_and_add_new:
  "\<not> fst (check_and_add d h p t) \<Longrightarrow>
     snd (check_and_add d h p t) = add_hash (snd (is_duplicate d h p t)) h p"
  by (auto simp add: check_and_add_def split: prod.splits bool.splits)

lemma add_hash_exact: "exact_hashes (add_hash d h p) = finsert h (exact_hashes d)"
  by (simp add: add_hash_def Let_def)

lemma add_hash_perceptual:
  "perceptual_hashes (add_hash d h p) =
     (if enable_perceptual_hashing d \<and> truthy p
      then dict_append (perceptual_hashes d) (the p) h else perceptual_hashes d)"
  by (simp add: add_hash_def Let_def)

lemma bucket_dict_append:
  "bucket (d\<lparr>perceptual_hashes := dict_append (perceptual_hashes d) k h\<rparr>) k' =
     (if k' = k then bucket d k @ [h] else bucket d k')"
  by (simp add: bucket_def map_of_dict_append)

lemma check_and_add_repeatedly_member:
  "h |\<in>| exact_hashes d \<Longrightarrow>
     fst (check_and_add_repeatedly d h args) = replicate (length args) True"
proof (induction args arbitrary: d)
  case Nil
  then show ?case by simp
next
  case (Cons a args)
  obtain p t where a: "a = (p, t)" by (cases a)
  obtain r d1 where c: "check_and_add d h p t = (r, d1)" by (cases "check_and_add d h p t")
  have r: "r" using is_duplicate_member[OF Cons.prems, of p t] c check_and_add_fst[of d h p t] by simp
  have "d1 = snd (is_duplicate d h p t)" using check_and_add_dup[of d h p t] c r by simp
  then have "h |\<in>| exact_hashes d1" using Cons.prems by (simp add: is_duplicate_hashes)
  from Cons.IH[OF this] a c r show ?case
    by (cases "check_and_add_repeatedly d1 h args") auto
qed

text \<open>
  Claim C1. \<^verbatim>\<open>check_and_add\<close> returns true exactly when the input is a duplicate of the
  current state: its exact hash is stored, or perceptual hashing is enabled, a perceptual
  hash was supplied (neither \<^verbatim>\<open>None\<close> nor empty) and some bucket key matches it within
  the threshold; this is the judgement of \<^verbatim>\<open>is_duplicate\<close>. Both hash collections are
  then unchanged. When it returns false, the exact hash has been added to
  \<^verbatim>\<open>exact_hashes\<close>; if perceptual hashing is enabled and a perceptual hash was supplied,
  its bucket has gained the exact hash at its end and no other bucket has changed,
  and otherwise the buckets are unchanged. Consequently, on a detector with empty hash
  collections the first call with a hash returns false, and every later call with the
  same hash returns true, whatever perceptual hash and threshold it is given.
\<close>

theorem check_and_add_contract:
  "(fst (check_and_add d h p t) \<longleftrightarrow>
      h |\<in>| exact_hashes d
      \<or> (enable_perceptual_hashing d \<and> truthy p
         \<and> (\<exists>k \<in> fst ` set (perceptual_hashes d). near_duplicate (the p) k t)))
   \<and> fst (check_and_add d h p t) = fst (is_duplicate d h p t)
   \<and> (fst (check_and_add d h p t) \<longrightarrow>
        exact_hashes (snd (check_and_add d h p t)) = exact_hashes d
        \<and> perceptual_hashes (snd (check_and_add d h p t)) = perceptual_hashes d)
   \<and> (\<not> fst (check_and_add d h p t) \<longrightarrow>
        exact_hashes (snd (check_and_add d h p t)) = finsert h (exact_hashes d)
        \<and> (enable_perceptual_hashing d \<and> truthy p \<longrightarrow>
             (\<forall>k. bucket (snd (check_and_add d h p t)) k =
                    (if k = the p then bucket d k @ [h] else bucket d k)))
        \<and> (\<not> (enable_perceptual_hashing d \<and> truthy p) \<longrightarrow>
             perceptual_hashes (snd (check_and_add d h p t)) = perceptual_hashes d))
   \<and> (exact_hashes d = {||} \<and> perceptual_hashes d = [] \<longrightarrow>
        \<not> fst (check_and_add d h p t)
        \<and> fst (check_and_add_repeatedly (snd (check_and_add d h p t)) h args)
            = replicate (length args) True)"
proof (intro conjI impI allI)
  show "fst (check_and_add d h p t) \<longleftrightarrow>
      h |\<in>| exact_hashes d
      \<or> (enable_perceptual_hashing d \<and> truthy p
         \<and> (\<exists>k \<in> fst ` set (perceptual_hashes d). near_duplicate (the p) k t))"
    unfolding check_and_add_fst by (rule is_duplicate_iff)
next
  show "fst (check_and_add d h p t) = fst (is_duplicate d h p t)"
    by (rule check_and_add_fst)
next
  assume "fst (check_and_add d h p t)"
  then show "exact_hashes (snd (check_and_add d h p t)) = exact_hashes d"
    and "perceptual_hashes (snd (check_and_add d h p t)) = perceptual_hashes d"
    by (simp_all add: check_and_add_dup is_duplicate_hashes)
next
  assume n: "\<not> fst (check_and_add d h p t)"
  then show "exact_hashes (snd (check_and_add d h p t)) = finsert h (exact_hashes d)"
    by (simp add: check_and_add_new add_hash_exact is_duplicate_hashes)
  {
    fix k
    assume "enable_perceptual_hashing d \<and> truthy p"
    then show "bucket (snd (check_and_add d h p t)) k =
                 (if k = the p then bucket d k @ [h] else bucket d k)"
      using n
      by (simp add: check_and_add_new bucket_def add_hash_perceptual is_duplicate_hashes
            map_of_dict_append)
  }
  {
    assume "\<not> (enable_perceptual_hashing d \<and> truthy p)"
    then show "perceptual_hashes (snd (check_and_add d h p t)) = perceptual_hashes d"
      using n by (auto simp add: check_and_add_new add_hash_perceptual is_duplicate_hashes)
  }
next
  assume e: "exact_hashes d = {||} \<and> perceptual_hashes d = []"
  then show n: "\<not> fst (check_and_add d h p t)"
    by (simp add: check_and_add_fst is_duplicate_empty)
  then have "h |\<in>| exact_hashes (snd (check_and_add d h p t))"
    by (simp add: check_and_add_new add_hash_exact)
  then show "fst (check_and_add_repeatedly (snd (check_and_add d h p t)) h args)
               = replicate (length args) True"
    by (rule check_and_add_repeatedly_member)
qed

theorem check_and_add_contract_witness:
  "fst (check_and_add (init_detector True) ''d41d8cd9'' (Some ''ff00'') 5) = False
   \<and> exact_hashes (snd (check_and_add (init_detector True) ''d41d8cd9'' (Some ''ff00'') 5))
       = {|''d41d8cd9''|}
   \<and> bucket (snd (check_and_add (init_detector True) ''d41d8cd9'' (Some ''ff00'') 5)) ''ff00''
       = [''d41d8cd9'']
   \<and> fst (check_and_add_repeatedly
            (snd (check_and_add (init_detector True) ''d41d8cd9'' (Some ''ff00'') 5))
            ''d41d8cd9'' [(None, 5), (Some ''ff00'', 0)]) = [True, True]
   \<and> fst (check_and_add (snd (check_and_add (init_detector True) ''d41d8cd9'' (Some ''ff00'') 5))
            ''d41d8cd9'' None 5) = True
   \<and> exact_hashes (snd (check_and_add
            (snd (check_and_add (init_detector True) ''d41d8cd9'' (Some ''ff00'') 5))
            ''d41d8cd9'' None 5)) = {|''d41d8cd9''|}
   \<and> fst (check_and_add (snd (check_and_add (init_detector True) ''d41d8cd9'' (Some ''ff00'') 5))
            ''e3b0c442'' None 5) = False
   \<and> exact_hashes (snd (check_and_add
            (snd (check_and_add (init_detector True) ''d41d8cd9'' (Some ''ff00'') 5))
            ''e3b0c442'' None 5)) = {|''e3b0c442'', ''d41d8cd9''|}
   \<and> fst (check_and_add (snd (check_and_add (init_detector True) ''d41d8cd9'' (Some ''ff00'') 5))
            ''e3b0c442'' (Some ''f701'') 5) = True
   \<and> exact_hashes (snd (check_and_add
            (snd (check_and_add (init_detector True) ''d41d8cd9'' (Some ''ff00'') 5))
            ''e3b0c442'' (Some ''f701'') 5)) = {|''d41d8cd9''|}
   \<and> fst (check_and_add (snd (check_and_add (init_detector True) ''d41d8cd9'' (Some ''ff00'') 5))
            ''e3b0c442'' (Some ''f701'') 1) = False
   \<and> perceptual_hashes (snd (check_and_add
            (snd (check_and_add (init_detector True) ''d41d8cd9'' (Some ''ff00'') 5))
            ''e3b0c442'' (Some ''f701'') 1)) = [(''ff00'', [''d41d8cd9'']), (''f701'', [''e3b0c442''])]"
proof -
  let ?d = "snd (check_and_add (init_detector True) ''d41d8cd9'' (Some ''ff00'') 5)"
  have d: "?d = \<lparr> exact_hashes = {|''d41d8cd9''|},
                  perceptual_hashes = [(''ff00'', [''d41d8cd9''])],
                  enable_perceptual_hashing = True, duplicate_count = 0, total_checked = 1 \<rparr>"
    by (simp add: init_detector_def check_and_add_def is_duplicate_def add_hash_def truthy_def
          Let_def)
  have n: "near_duplicate ''f701'' ''ff00'' 5" "\<not> near_duplicate ''f701'' ''ff00'' 1"
    by (simp_all add: near_duplicate_def hex_eval)
  have 1: "fst (check_and_add (init_detector True) ''d41d8cd9'' (Some ''ff00'') 5) = False
     \<and> exact_hashes ?d = {|''d41d8cd9''|} \<and> bucket ?d ''ff00'' = [''d41d8cd9'']
     \<and> fst (check_and_add_repeatedly ?d ''d41d8cd9'' [(None, 5), (Some ''ff00'', 0)])
         = [True, True]"
    using check_and_add_contract [of "init_detector True" "''d41d8cd9''" "Some ''ff00''" 5
          "[(None, 5), (Some ''ff00'', 0)]"]
    by (simp add: init_detector_def truthy_def bucket_def del: check_and_add_repeatedly.simps)
  have 2: "fst (check_and_add ?d ''d41d8cd9'' None 5) = True
     \<and> exact_hashes (snd (check_and_add ?d ''d41d8cd9'' None 5)) = {|''d41d8cd9''|}"
    using check_and_add_contract [of ?d "''d41d8cd9''" None 5 "[]"] unfolding d by simp
  have 3: "fst (check_and_add ?d ''e3b0c442'' None 5) = False
     \<and> exact_hashes (snd (check_and_add ?d ''e3b0c442'' None 5))
         = {|''e3b0c442'', ''d41d8cd9''|}"
    using check_and_add_contract [of ?d "''e3b0c442''" None 5 "[]"] unfolding d
    by (simp add: truthy_def)
  have 4: "fst (check_and_add ?d ''e3b0c442'' (Some ''f701'') 5) = True
     \<and> exact_hashes (snd (check_and_add ?d ''e3b0c442'' (Some ''f701'') 5)) = {|''d41d8cd9''|}"
    using check_and_add_contract [of ?d "''e3b0c442''" "Some ''f701''" 5 "[]"] n unfolding d
    by (simp add: truthy_def)
  have 5: "fst (check_and_add ?d ''e3b0c442'' (Some ''f701'') 1) = False"
    using check_and_add_contract [of ?d "''e3b0c442''" "Some ''f701''" 1 "[]"] n unfolding d
    by (simp add: truthy_def)
  have 6: "perceptual_hashes (snd (check_and_add ?d ''e3b0c442'' (Some ''f701'') 1))
             = [(''ff00'', [''d41d8cd9'']), (''f701'', [''e3b0c442''])]"
    using 5 unfolding d
    by (simp add: check_and_add_new add_hash_perceptual is_duplicate_hashes truthy_def)
  show ?thesis using 1 2 3 4 5 6 by (simp only: simp_thms)
qed

subsection \<open>Perceptual matching\<close>

lemma is_duplicate_perceptual:
  assumes "enable_perceptual_hashing d" and "h |\<notin>| exact_hashes d"
  shows "fst (is_duplicate d h (Some p) t) =
           (\<exists>k \<in> fst ` set (perceptual_hashes d). near_duplicate p k t)"
proof (cases "p = []")
  case True
  then show ?thesis using assms
    by (simp add: is_duplicate_def Let_def truthy_def near_duplicate_Nil)
next
  case False
  then show ?thesis using assms
    by (cases "perceptual_hashes d = []")
       (simp_all add: is_duplicate_def Let_def truthy_def similar_in_iff)
qed

text \<open>
  On plain hex strings the distance that \<^verbatim>\<open>_hamming_distance\<close> computes through
  \<^verbatim>\<open>int(s, 16)\<close>, exclusive or and \<^verbatim>\<open>bin(x).count('1')\<close> is the number of bits in which the
  values of the two strings differ.
\<close>

lemma bit_count_xor: "bit_count (a XOR b) = differing_bits a b"
proof (induction a b rule: differing_bits.induct)
  case (1 a b)
  show ?case
  proof (cases "a = 0 \<and> b = 0")
    case True
    then show ?thesis by (simp add: differing_bits.simps)
  next
    case False
    have x: "a XOR b = of_bool (odd a \<noteq> odd b) + 2 * ((a div 2) XOR (b div 2))"
      by (rule xor_rec)
    have m: "(a XOR b) mod 2 = (if a mod 2 = b mod 2 then 0 else 1)"
      by (subst x) (auto simp: mod_2_eq_odd)
    have d: "(a XOR b) div 2 = (a div 2) XOR (b div 2)"
      by (subst x) simp
    show ?thesis
    proof (cases "a XOR b = 0")
      case True
      then have "a = b" by (metis xor_self_eq xor.left_commute xor.right_neutral xor.commute)
      then show ?thesis using "1.IH" [OF False] d True
        by (subst differing_bits.simps) (simp add: False bit_count.simps [of 0])
    next
      case nz: False
      then have "bit_count (a XOR b) = (a XOR b) mod 2 + bit_count ((a XOR b) div 2)"
        by (simp add: bit_count_pos)
      then show ?thesis using "1.IH" [OF False] m d False
        by (subst differing_bits.simps) auto
    qed
  qed
qed

lemma bin_count_ones_xor:
  "bin_count_ones (int a XOR int b) = differing_bits a b"
proof -
  have "int a XOR int b = int (a XOR b)" by (simp add: of_nat_xor_eq)
  then show ?thesis by (simp add: bin_count_ones_def bit_count_xor)
qed

lemma hex_digit_facts:
  assumes "hex_digit_value c \<noteq> None"
  shows "\<not> py_isspace c" and "c \<noteq> CHR ''+''" and "c \<noteq> CHR ''-''" and "c \<noteq> CHR ''_''"
    and "c \<noteq> CHR ''x''" and "c \<noteq> CHR ''X''"
  using assms by (auto simp: hex_digit_value_def py_isspace_def Let_def split: if_splits)

lemma long_from_string_base_plain:
  assumes "list_all (\<lambda>c. hex_digit_value c \<noteq> None) s" and "seen \<or> s \<noteq> []"
  shows "long_from_string_base False seen acc s =
           Some (foldl (\<lambda>acc c. 16 * acc + (case hex_digit_value c of None \<Rightarrow> 0 | Some v \<Rightarrow> v))
                   acc s, [])"
  using assms
proof (induction s arbitrary: seen acc)
  case Nil
  then show ?case by simp
next
  case (Cons c cs)
  then obtain v where v: "hex_digit_value c = Some v" by auto
  have u: "c \<noteq> CHR ''_''" using hex_digit_facts(4) v by simp
  show ?case using Cons.IH [of True "16 * acc + v"] Cons.prems(1) v u by simp
qed

lemma py_int16_plain:
  assumes "plain_hex s"
  shows "py_int16 s = Some (int (hex_value s))"
proof -
  from assms obtain c cs where s: "s = c # cs" and c: "hex_digit_value c \<noteq> None"
    and cs: "list_all (\<lambda>c. hex_digit_value c \<noteq> None) cs"
    by (cases s) (auto simp: plain_hex_def)
  have all: "list_all (\<lambda>c. hex_digit_value c \<noteq> None) s" using assms by (simp add: plain_hex_def)
  have 1: "dropWhile py_isspace s = s" using hex_digit_facts(1) [OF c] by (simp add: s)
  have 2: "strip_prefix_0x s = s"
  proof (cases cs)
    case Nil
    then show ?thesis by (simp add: s strip_prefix_0x_def)
  next
    case (Cons c1 rest)
    then have "hex_digit_value c1 \<noteq> None" using cs by simp
    then have "c1 \<noteq> CHR ''x''" "c1 \<noteq> CHR ''X''" using hex_digit_facts(5,6) by blast+
    then show ?thesis by (simp add: s Cons strip_prefix_0x_def)
  qed
  have 3: "long_from_string_base False False 0 s = Some (hex_value s, [])"
    unfolding hex_value_def using all by (intro long_from_string_base_plain) (simp_all add: s)
  have 4: "c \<noteq> CHR ''+''" "c \<noteq> CHR ''-''" using hex_digit_facts(2,3) [OF c] by simp_all
  have "(case s of c # cs \<Rightarrow> (if c = CHR ''+'' then (False, cs)
                                    else if c = CHR ''-'' then (True, cs)
                                    else (False, s))
                       | [] \<Rightarrow> (False, s)) = (False, s)"
    using 4 by (simp add: s)
  then show ?thesis unfolding py_int16_def 1 Let_def by (simp add: 2 3)
qed

lemma hamming_distance_plain:
  assumes "plain_hex p" and "plain_hex k" and "length p = length k"
  shows "hamming_distance p k = Some (differing_bits (hex_value p) (hex_value k))"
  using assms by (simp add: hamming_distance_def py_int16_plain bin_count_ones_xor)

lemma near_duplicate_plain:
  assumes "plain_hex p" and "plain_hex k"
  shows "near_duplicate p k t \<longleftrightarrow>
           length k = length p \<and> int (differing_bits (hex_value p) (hex_value k)) \<le> t"
  using assms by (simp add: near_duplicate_def py_int16_plain bin_count_ones_xor)

text \<open>
  Claim C6. On a detector with perceptual hashing enabled and at least one stored
  bucket, a candidate whose exact hash is not stored is reported as a duplicate, by
  \<^verbatim>\<open>is_duplicate\<close> and by \<^verbatim>\<open>check_and_add\<close> alike, if and only if some bucket key has the
  length of the candidate's perceptual hash and a Hamming distance to it, taken on the
  hex-decoded integers, of at most the threshold. In particular a candidate whose
  perceptual hash differs in length from every key is not a duplicate, and neither is
  one without a perceptual hash. When the candidate's perceptual hash and all keys are
  plain hex strings, that distance is the number of bits in which the two values differ.
\<close>

theorem perceptual_duplicate_iff:
  assumes "enable_perceptual_hashing d" and "perceptual_hashes d \<noteq> []"
    and "h |\<notin>| exact_hashes d"
  shows "(fst (is_duplicate d h (Some p) t) \<longleftrightarrow>
            (\<exists>k \<in> fst ` set (perceptual_hashes d). near_duplicate p k t))
    \<and> (fst (check_and_add d h (Some p) t) \<longleftrightarrow>
            (\<exists>k \<in> fst ` set (perceptual_hashes d). near_duplicate p k t))
    \<and> ((\<forall>k \<in> fst ` set (perceptual_hashes d). length k \<noteq> length p) \<longrightarrow>
            \<not> fst (is_duplicate d h (Some p) t))
    \<and> (\<not> fst (is_duplicate d h None t))
    \<and> (plain_hex p \<and> list_all (\<lambda>kv. plain_hex (fst kv)) (perceptual_hashes d) \<longrightarrow>
          (fst (is_duplicate d h (Some p) t) \<longleftrightarrow>
             (\<exists>k \<in> fst ` set (perceptual_hashes d).
                 length k = length p
                 \<and> int (differing_bits (hex_value p) (hex_value k)) \<le> t)))"
proof (intro conjI impI)
  show 1: "fst (is_duplicate d h (Some p) t) \<longleftrightarrow>
            (\<exists>k \<in> fst ` set (perceptual_hashes d). near_duplicate p k t)"
    using assms by (simp add: is_duplicate_perceptual)
  then show "fst (check_and_add d h (Some p) t) \<longleftrightarrow>
            (\<exists>k \<in> fst ` set (perceptual_hashes d). near_duplicate p k t)"
    by (simp add: check_and_add_fst)
  show "\<not> fst (is_duplicate d h None t)"
    using assms by (simp add: is_duplicate_def Let_def truthy_def)
next
  assume "\<forall>k \<in> fst ` set (perceptual_hashes d). length k \<noteq> length p"
  then have "\<not> (\<exists>k \<in> fst ` set (perceptual_hashes d). near_duplicate p k t)"
    by (auto simp: near_duplicate_def)
  then show "\<not> fst (is_duplicate d h (Some p) t)"
    using assms by (simp add: is_duplicate_perceptual)
next
  assume a: "plain_hex p \<and> list_all (\<lambda>kv. plain_hex (fst kv)) (perceptual_hashes d)"
  then have "\<forall>k \<in> fst ` set (perceptual_hashes d). plain_hex k"
    by (auto simp: list_all_iff)
  then have q: "(\<exists>k \<in> fst ` set (perceptual_hashes d). near_duplicate p k t) \<longleftrightarrow>
      (\<exists>k \<in> fst ` set (perceptual_hashes d).
          length k = length p \<and> int (differing_bits (hex_value p) (hex_value k)) \<le> t)"
    using a near_duplicate_plain [of p _ t] by blast
  have e: "fst (is_duplicate d h (Some p) t) \<longleftrightarrow>
      (\<exists>k \<in> fst ` set (perceptual_hashes d). near_duplicate p k t)"
    using assms by (simp add: is_duplicate_perceptual)
  show "fst (is_duplicate d h (Some p) t) \<longleftrightarrow>
      (\<exists>k \<in> fst ` set (perceptual_hashes d).
          length k = length p \<and> int (differing_bits (hex_value p) (hex_value k)) \<le> t)"
    unfolding e by (rule q)
qed

lemma two_entries:
  assumes "exact_hashes d = {||}" "perceptual_hashes d = []" "enable_perceptual_hashing d"
    and "p1 \<noteq> []" and "h2 \<noteq> h1"
  shows "fst (check_and_add (snd (check_and_add d h1 (Some p1) t1)) h2 (Some p2) t)
           = near_duplicate p2 p1 t"
proof -
  let ?d1 = "snd (check_and_add d h1 (Some p1) t1)"
  have n: "\<not> fst (check_and_add d h1 (Some p1) t1)"
    using assms by (simp add: check_and_add_fst is_duplicate_empty)
  then have d1: "?d1 = add_hash (snd (is_duplicate d h1 (Some p1) t1)) h1 (Some p1)"
    by (rule check_and_add_new)
  have e: "exact_hashes ?d1 = {|h1|}"
    using assms by (simp add: d1 add_hash_exact is_duplicate_hashes)
  have b: "perceptual_hashes ?d1 = [(p1, [h1])]"
    using assms by (simp add: d1 add_hash_perceptual is_duplicate_hashes truthy_def)
  have en: "enable_perceptual_hashing ?d1"
    using assms by (simp add: d1 add_hash_def Let_def is_duplicate_hashes)
  have "h2 |\<notin>| exact_hashes ?d1" using e assms by simp
  from is_duplicate_perceptual[OF en this, of p2 t] show ?thesis
    by (simp add: check_and_add_fst b)
qed


theorem perceptual_duplicate_iff_witness:
  "enable_perceptual_hashing (snd (check_and_add (init_detector True) ''aa'' (Some ''ff00'') 5))
   \<and> perceptual_hashes (snd (check_and_add (init_detector True) ''aa'' (Some ''ff00'') 5))
       = [(''ff00'', [''aa''])]
   \<and> ''bb'' |\<notin>| exact_hashes (snd (check_and_add (init_detector True) ''aa'' (Some ''ff00'') 5))
   \<and> near_duplicate ''f701'' ''ff00'' 5
   \<and> fst (is_duplicate (snd (check_and_add (init_detector True) ''aa'' (Some ''ff00'') 5))
            ''bb'' (Some ''f701'') 5)
   \<and> \<not> near_duplicate ''f701'' ''ff00'' 1
   \<and> \<not> fst (is_duplicate (snd (check_and_add (init_detector True) ''aa'' (Some ''ff00'') 5))
            ''bb'' (Some ''f701'') 1)
   \<and> \<not> fst (is_duplicate (snd (check_and_add (init_detector True) ''aa'' (Some ''ff00'') 5))
            ''bb'' (Some ''ff0'') 5)
   \<and> plain_hex ''f701'' \<and> plain_hex ''ff00''
   \<and> int (differing_bits (hex_value ''f701'') (hex_value ''ff00'')) \<le> 5"
proof -
  let ?d = "snd (check_and_add (init_detector True) ''aa'' (Some ''ff00'') 5)"
  have d: "?d = \<lparr> exact_hashes = {|''aa''|}, perceptual_hashes = [(''ff00'', [''aa''])],
                  enable_perceptual_hashing = True, duplicate_count = 0, total_checked = 1 \<rparr>"
    by (simp add: init_detector_def check_and_add_def is_duplicate_def add_hash_def truthy_def
          Let_def)
  have en: "enable_perceptual_hashing ?d" and ne: "perceptual_hashes ?d \<noteq> []"
    and nm: "''bb'' |\<notin>| exact_hashes ?d"
    by (simp_all add: d)
  have n5: "near_duplicate ''f701'' ''ff00'' 5" and n1: "\<not> near_duplicate ''f701'' ''ff00'' 1"
    and n3: "\<not> near_duplicate ''ff0'' ''ff00'' 5"
    by (simp_all add: near_duplicate_def hex_eval)
  have ph: "plain_hex ''f701''" "plain_hex ''ff00''"
    by (simp_all add: plain_hex_def hex_digit_value_def)
  have w: "fst (is_duplicate ?d ''bb'' (Some ''f701'') 5)
     \<and> \<not> fst (is_duplicate ?d ''bb'' (Some ''f701'') 1)
     \<and> \<not> fst (is_duplicate ?d ''bb'' (Some ''ff0'') 5)"
    using perceptual_duplicate_iff [OF en ne nm, of "''f701''" 5]
      perceptual_duplicate_iff [OF en ne nm, of "''f701''" 1]
      perceptual_duplicate_iff [OF en ne nm, of "''ff0''" 5] n5 n1 n3
    by (simp add: d)
  have "int (differing_bits (hex_value ''f701'') (hex_value ''ff00'')) \<le> 5"
    using perceptual_duplicate_iff [OF en ne nm, of "''f701''" 5] w ph
    by (auto simp add: d)
  then show ?thesis using en d nm n5 n1 w ph by simp
qed

subsection \<open>Export and import\<close>

lemma is_duplicate_fst_cong:
  assumes "exact_hashes d' = exact_hashes d" and "perceptual_hashes d' = perceptual_hashes d"
    and "enable_perceptual_hashing d' = enable_perceptual_hashing d"
  shows "fst (is_duplicate d' h p t) = fst (is_duplicate d h p t)"
  using assms by (simp add: is_duplicate_def Let_def)

lemma import_export_fields:
  "exact_hashes (import_hashes d0 (export_hashes d)) = exact_hashes d"
  "perceptual_hashes (import_hashes d0 (export_hashes d)) = perceptual_hashes d"
  "enable_perceptual_hashing (import_hashes d0 (export_hashes d)) = enable_perceptual_hashing d0"
  by (simp_all add: import_hashes_def export_hashes_def)

lemma import_hashes_order:
  "set xs = set ys \<Longrightarrow>
     import_hashes d0 (data\<lparr> data_exact_hashes := Some xs \<rparr>)
       = import_hashes d0 (data\<lparr> data_exact_hashes := Some ys \<rparr>)"
  by (simp add: import_hashes_def fset_of_list.abs_eq)

text \<open>
  Claim C10. Importing the export of a detector \<open>d\<close> into a fresh detector with the same
  perceptual-hashing setting restores both hash collections, so the restored perceptual
  buckets are those of \<open>d\<close>; \<^verbatim>\<open>check_and_add\<close> then answers as it does on \<open>d\<close> for every
  input, and every exact hash stored in \<open>d\<close> is reported as a duplicate.
\<close>

theorem export_import_roundtrip:
  "exact_hashes (import_hashes (init_detector (enable_perceptual_hashing d)) (export_hashes d))
     = exact_hashes d
   \<and> perceptual_hashes
       (import_hashes (init_detector (enable_perceptual_hashing d)) (export_hashes d))
     = perceptual_hashes d
   \<and> fst (check_and_add
            (import_hashes (init_detector (enable_perceptual_hashing d)) (export_hashes d)) h p t)
     = fst (check_and_add d h p t)
   \<and> (h |\<in>| exact_hashes d \<longrightarrow>
        fst (check_and_add
              (import_hashes (init_detector (enable_perceptual_hashing d)) (export_hashes d))
              h p t))"
proof -
  let ?d' = "import_hashes (init_detector (enable_perceptual_hashing d)) (export_hashes d)"
  have e: "exact_hashes ?d' = exact_hashes d" and b: "perceptual_hashes ?d' = perceptual_hashes d"
    by (simp_all add: import_export_fields)
  have en: "enable_perceptual_hashing ?d' = enable_perceptual_hashing d"
    by (simp add: import_export_fields init_detector_def)
  have r: "fst (check_and_add ?d' h p t) = fst (check_and_add d h p t)"
    by (simp add: check_and_add_fst is_duplicate_fst_cong [OF e b en])
  have "fst (check_and_add ?d' h p t)" if "h |\<in>| exact_hashes d"
    using that by (simp add: check_and_add_fst is_duplicate_member e)
  with e b r show ?thesis by simp
qed

theorem export_import_roundtrip_witness:
  "''aa'' |\<in>| exact_hashes
       \<lparr> exact_hashes = {|''aa''|}, perceptual_hashes = [(''ff00'', [''aa''])],
         enable_perceptual_hashing = True, duplicate_count = 0, total_checked = 1 \<rparr>
   \<and> fst (check_and_add
           (import_hashes (init_detector True)
              (export_hashes
                 \<lparr> exact_hashes = {|''aa''|}, perceptual_hashes = [(''ff00'', [''aa''])],
                   enable_perceptual_hashing = True, duplicate_count = 0, total_checked = 1 \<rparr>))
           ''aa'' None 5)
   \<and> perceptual_hashes
        (import_hashes (init_detector True)
           (export_hashes
              \<lparr> exact_hashes = {|''aa''|}, perceptual_hashes = [(''ff00'', [''aa''])],
                enable_perceptual_hashing = True, duplicate_count = 0, total_checked = 1 \<rparr>))
      = [(''ff00'', [''aa''])]"
  using export_import_roundtrip
    [of "\<lparr> exact_hashes = {|''aa''|}, perceptual_hashes = [(''ff00'', [''aa''])],
           enable_perceptual_hashing = True, duplicate_count = 0, total_checked = 1 \<rparr>"
        "''aa''" None 5]
  by (simp add: check_and_add_fst is_duplicate_member)

subsection \<open>Statistics\<close>











section \<open>Properties of the RetryHandler\<close>

lemma is_retryable_stats [simp]:
  "is_retryable (h\<lparr> total_attempts := x \<rparr>) e = is_retryable h e"
  "is_retryable (h\<lparr> total_retries := y \<rparr>) e = is_retryable h e"
  "is_retryable (h\<lparr> total_failures := z \<rparr>) e = is_retryable h e"
  by (simp_all add: is_retryable_def)

lemma calculate_delay_stats [simp]:
  "calculate_delay (h\<lparr> total_attempts := x \<rparr>) k u = calculate_delay h k u"
  "calculate_delay (h\<lparr> total_retries := y \<rparr>) k u = calculate_delay h k u"
  "calculate_delay (h\<lparr> total_failures := z \<rparr>) k u = calculate_delay h k u"
  by (simp_all add: calculate_delay_def Let_def split: sum.splits)

lemma calculate_delay_cases:
  "calculate_delay h k u =
     (if float_overflow_threshold \<le> \<bar>exponential_base h ^ k\<bar>
      then Inl (OverflowError ''(34, Numerical result out of range)'')
      else Inr (max 0 (let delay = min (retry_base_delay h * exponential_base h ^ k) (max_delay h)
                       in if jitter h
                          then delay + random_uniform (- (delay * 0.25)) (delay * 0.25) u
                          else delay)))"
  by (simp add: calculate_delay_def float_pow_def Let_def)

lemma calculate_delay_nonneg: "calculate_delay h k u = Inr d \<Longrightarrow> 0 \<le> d"
  by (auto simp: calculate_delay_cases split: if_splits)

lemma always_fails_stats [simp]:
  "always_fails_retryably (h\<lparr> total_attempts := x \<rparr>) f = always_fails_retryably h f"
  "always_fails_retryably (h\<lparr> total_retries := y \<rparr>) f = always_fails_retryably h f"
  "always_fails_retryably (h\<lparr> total_failures := z \<rparr>) f = always_fails_retryably h f"
  by (simp_all add: always_fails_retryably_def cong: sum.case_cong)

lemma always_failsD:
  assumes "always_fails_retryably h func"
  obtains e where "func i = Inl e" "isinstance e ''Exception''" "is_retryable h e"
  using assms unfolding always_fails_retryably_def
  by (cases "func i") (auto dest: spec[of _ i])

lemma retry_loop_exhausted:
  fixes func :: "nat \<Rightarrow> exn + 'r"
  assumes "a \<le> m" and "max_retries h = int m + 1"
    and "always_fails_retryably h func"
    and "\<forall>k. a \<le> k \<and> k < m \<longrightarrow> \<bar>exponential_base h ^ k\<bar> < float_overflow_threshold"
  shows "outcome (retry_loop func rnd [a..<Suc m] h lst calls slept) = func (calls + (m - a))
    \<and> invocations (retry_loop func rnd [a..<Suc m] h lst calls slept) = calls + (m - a) + 1
    \<and> total_attempts (handler (retry_loop func rnd [a..<Suc m] h lst calls slept))
        = total_attempts h + (m - a) + 1
    \<and> total_retries (handler (retry_loop func rnd [a..<Suc m] h lst calls slept))
        = total_retries h + (m - a)
    \<and> total_failures (handler (retry_loop func rnd [a..<Suc m] h lst calls slept))
        = total_failures h + 1
    \<and> length (sleeps (retry_loop func rnd [a..<Suc m] h lst calls slept))
        = length slept + (m - a)"
  using assms
proof (induction a arbitrary: h lst calls slept rule: inc_induct)
  case base
  obtain e where e: "func calls = Inl e" "isinstance e ''Exception''" "is_retryable h e"
    using always_failsD [OF base.prems(2)] by blast
  have "[m..<Suc m] = [m]" by simp
  then show ?case using e base.prems(1)
    by (simp add: Let_def raise_last_exception_def)
next
  case (step n)
  obtain e where e: "func calls = Inl e" "isinstance e ''Exception''" "is_retryable h e"
    using always_failsD [OF step.prems(2)] by blast
  have l: "[n..<Suc m] = n # [Suc n..<Suc m]"
    using step.hyps by (simp add: upt_conv_Cons)
  let ?h2 = "h\<lparr> total_attempts := total_attempts h + 1, total_retries := total_retries h + 1 \<rparr>"
  have no: "\<bar>exponential_base h ^ n\<bar> < float_overflow_threshold"
    using step.prems(3) step.hyps by simp
  then obtain d where d: "calculate_delay h n (rnd n) = Inr d"
    by (simp add: calculate_delay_cases)
  have lp: "retry_loop func rnd [n..<Suc m] h lst calls slept
          = retry_loop func rnd [Suc n..<Suc m] ?h2 (Some e) (calls + 1) (slept @ [d])"
    unfolding l using e d step.hyps step.prems(1) by (simp add: Let_def)
  have ih: "max_retries ?h2 = int m + 1" "always_fails_retryably ?h2 func"
    "\<forall>k. Suc n \<le> k \<and> k < m \<longrightarrow> \<bar>exponential_base ?h2 ^ k\<bar> < float_overflow_threshold"
    using step.prems by simp_all
  have mn: "m - n = Suc (m - Suc n)" using step.hyps by simp
  show ?case
    unfolding lp mn using step.IH [OF ih, of "Some e" "calls + 1" "slept @ [d]"]
    by (simp del: upt_Suc)
qed

lemma retry_loop_overflow:
  fixes func :: "nat \<Rightarrow> exn + 'r"
  assumes "a \<le> K" and "int K < max_retries h - 1"
    and "always_fails_retryably h func"
    and "\<forall>k. a \<le> k \<and> k < K \<longrightarrow> \<bar>exponential_base h ^ k\<bar> < float_overflow_threshold"
    and "float_overflow_threshold \<le> \<bar>exponential_base h ^ K\<bar>"
  shows "outcome (retry_loop func rnd ([a..<Suc K] @ rest) h lst calls slept)
        = Inl (OverflowError ''(34, Numerical result out of range)'')
    \<and> invocations (retry_loop func rnd ([a..<Suc K] @ rest) h lst calls slept)
        = calls + (K - a) + 1
    \<and> total_attempts (handler (retry_loop func rnd ([a..<Suc K] @ rest) h lst calls slept))
        = total_attempts h + (K - a) + 1
    \<and> total_retries (handler (retry_loop func rnd ([a..<Suc K] @ rest) h lst calls slept))
        = total_retries h + (K - a) + 1
    \<and> total_failures (handler (retry_loop func rnd ([a..<Suc K] @ rest) h lst calls slept))
        = total_failures h"
  using assms
proof (induction a arbitrary: h lst calls slept rule: inc_induct)
  case base
  obtain e where e: "func calls = Inl e" "isinstance e ''Exception''" "is_retryable h e"
    using always_failsD [OF base.prems(2)] by blast
  have "[K..<Suc K] = [K]" by simp
  then show ?case using e base.prems(1,4)
    by (simp add: Let_def calculate_delay_cases)
next
  case (step n)
  obtain e where e: "func calls = Inl e" "isinstance e ''Exception''" "is_retryable h e"
    using always_failsD [OF step.prems(2)] by blast
  have l: "[n..<Suc K] = n # [Suc n..<Suc K]"
    using step.hyps by (simp add: upt_conv_Cons)
  let ?h2 = "h\<lparr> total_attempts := total_attempts h + 1, total_retries := total_retries h + 1 \<rparr>"
  have no: "\<bar>exponential_base h ^ n\<bar> < float_overflow_threshold"
    using step.prems(3) step.hyps by simp
  then obtain d where d: "calculate_delay h n (rnd n) = Inr d"
    by (simp add: calculate_delay_cases)
  have lp: "retry_loop func rnd ([n..<Suc K] @ rest) h lst calls slept
          = retry_loop func rnd ([Suc n..<Suc K] @ rest) ?h2 (Some e) (calls + 1) (slept @ [d])"
    unfolding l using e d step.hyps step.prems(1) by (simp add: Let_def)
  have ih: "int K < max_retries ?h2 - 1" "always_fails_retryably ?h2 func"
    "\<forall>k. Suc n \<le> k \<and> k < K \<longrightarrow> \<bar>exponential_base ?h2 ^ k\<bar> < float_overflow_threshold"
    "float_overflow_threshold \<le> \<bar>exponential_base ?h2 ^ K\<bar>"
    using step.prems by simp_all
  have mn: "K - n = Suc (K - Suc n)" using step.hyps by simp
  show ?case
    unfolding lp mn using step.IH [OF ih, of "Some e" "calls + 1" "slept @ [d]"]
    by (simp del: upt_Suc)
qed


lemma float_overflow_threshold_pos: "1 < float_overflow_threshold"
proof -
  have "(2::real) ^ 970 < 2 ^ 1023" by (rule power_strict_increasing) simp_all
  moreover have "(2::real) ^ 1024 = 2 * 2 ^ 1023" by simp
  moreover have "(1::real) \<le> 2 ^ 1023" by (rule one_le_power) simp
  ultimately show ?thesis unfolding float_overflow_threshold_def by linarith
qed

lemma two_power_no_overflow:
  assumes "k < 1024"
  shows "\<bar>(2::real) ^ k\<bar> < float_overflow_threshold"
proof -
  have "(2::real) ^ k \<le> 2 ^ 1023" using assms by (intro power_increasing) simp_all
  moreover have "(2::real) ^ 970 < 2 ^ 1023" by (rule power_strict_increasing) simp_all
  moreover have "(2::real) ^ 1024 = 2 * 2 ^ 1023" by simp
  ultimately show ?thesis unfolding float_overflow_threshold_def by simp
qed

lemma two_power_overflow: "float_overflow_threshold \<le> \<bar>(2::real) ^ 1024\<bar>"
  unfolding float_overflow_threshold_def by simp

lemma ValueError_retryable:
  "isinstance (ValueError m) ''Exception''"
  "retryable_exceptions h = None \<Longrightarrow> is_retryable h (ValueError m)"
  by (simp_all add: isinstance_def ValueError_def is_retryable_def)

text \<open>
  When no power overflows before the last attempt, an operation that always fails
  retryably is invoked once per attempt, its last failure is raised, and one failure is
  counted.
\<close>

lemma execute_with_retry_exhausted:
  fixes func :: "nat \<Rightarrow> exn + 'r"
  assumes "1 \<le> max_retries h" and "always_fails_retryably h func"
    and "\<forall>k. int k < max_retries h - 1 \<longrightarrow> \<bar>exponential_base h ^ k\<bar> < float_overflow_threshold"
  shows "outcome (execute_with_retry h func rnd) = func (nat (max_retries h) - 1)
    \<and> invocations (execute_with_retry h func rnd) = nat (max_retries h)
    \<and> total_attempts (handler (execute_with_retry h func rnd))
        = total_attempts h + nat (max_retries h)
    \<and> total_retries (handler (execute_with_retry h func rnd))
        = total_retries h + (nat (max_retries h) - 1)
    \<and> total_failures (handler (execute_with_retry h func rnd)) = total_failures h + 1"
proof -
  define m where "m = nat (max_retries h) - 1"
  have n: "nat (max_retries h) = Suc m" and mr: "max_retries h = int m + 1"
    using assms(1) by (simp_all add: m_def)
  have no: "\<forall>k. 0 \<le> k \<and> k < m \<longrightarrow> \<bar>exponential_base h ^ k\<bar> < float_overflow_threshold"
    using assms(3) mr by simp
  show ?thesis
    unfolding execute_with_retry_def n
    using retry_loop_exhausted [OF _ mr assms(2) no, of rnd None 0 "[]"]
    by (simp del: upt_Suc)
qed

text \<open>
  Claim C3 fails on the code for a large number of attempts. With 1026 attempts, the
  default exponential base 2 and an operation that always raises \<^verbatim>\<open>ValueError\<close>, the
  delay computed after the 1025th failure needs \<^verbatim>\<open>2.0 ** 1024\<close>, which raises
  \<^verbatim>\<open>OverflowError\<close>: the operation is invoked 1025 times, not 1026, the caller receives
  the \<^verbatim>\<open>OverflowError\<close> instead of the operation's last failure, and no failure is
  counted.
\<close>

theorem execute_with_retry_overflow:
  "outcome (execute_with_retry (init_retry_handler 1026 0 60 2 False None)
        (\<lambda>i. Inl (ValueError ''boom'') :: exn + 'r) rnd)
     = Inl (OverflowError ''(34, Numerical result out of range)'')
   \<and> invocations (execute_with_retry (init_retry_handler 1026 0 60 2 False None)
        (\<lambda>i. Inl (ValueError ''boom'') :: exn + 'r) rnd) = 1025
   \<and> total_failures (handler (execute_with_retry (init_retry_handler 1026 0 60 2 False None)
        (\<lambda>i. Inl (ValueError ''boom'') :: exn + 'r) rnd)) = 0
   \<and> always_fails_retryably (init_retry_handler 1026 0 60 2 False None)
        (\<lambda>i. Inl (ValueError ''boom'') :: exn + 'r)"
proof -
  let ?h = "init_retry_handler 1026 0 60 2 False None"
  let ?f = "\<lambda>i::nat. (Inl (ValueError ''boom'') :: exn + 'r)"
  have af: "always_fails_retryably ?h ?f"
    by (simp add: always_fails_retryably_def ValueError_retryable init_retry_handler_def)
  have l: "[0..<nat (max_retries ?h)] = [0..<Suc 1024] @ [Suc 1024]"
  proof -
    have "nat (max_retries ?h) = Suc (Suc 1024)" by (simp add: init_retry_handler_def)
    moreover have "[0..<Suc (Suc 1024)] = [0..<Suc 1024] @ [Suc 1024]"
      by (rule upt_Suc_append) simp
    ultimately show ?thesis by (simp only:)
  qed
  have k: "int 1024 < max_retries ?h - 1" by (simp add: init_retry_handler_def)
  have no: "\<forall>k. 0 \<le> k \<and> k < 1024 \<longrightarrow> \<bar>exponential_base ?h ^ k\<bar> < float_overflow_threshold"
    using two_power_no_overflow by (simp add: init_retry_handler_def)
  have ov: "float_overflow_threshold \<le> \<bar>exponential_base ?h ^ 1024\<bar>"
    using two_power_overflow by (simp add: init_retry_handler_def)
  have tf: "total_failures ?h = 0" by (simp add: init_retry_handler_def)
  show ?thesis
    unfolding execute_with_retry_def l
    using retry_loop_overflow [OF _ k af no ov, of rnd "[Suc 1024]" None 0 "[]"] af tf
    by (simp del: upt_Suc)
qed


lemma upt_first: "0 < n \<Longrightarrow> [0..<n] = 0 # [1..<n]"
  by (simp add: upt_conv_Cons)

lemma calculate_delay_first:
  "\<exists>d. calculate_delay h 0 u = Inr d"
  using float_overflow_threshold_pos by (simp add: calculate_delay_cases)

lemma calculate_delay_second:
  "finite_float (exponential_base h) \<Longrightarrow> \<exists>d. calculate_delay h (Suc 0) u = Inr d"
  by (simp add: calculate_delay_cases finite_float_def)

text \<open>
  Claim C4. With three attempts and an exponential base that is a finite float, an
  operation that fails with a caught and retryable exception on its first two
  invocations and succeeds on the third makes \<^verbatim>\<open>execute_with_retry\<close> return the success
  value after three invocations and two sleeps; over the run \<^verbatim>\<open>total_attempts\<close> grows by
  3, \<^verbatim>\<open>total_retries\<close> by 2 and \<^verbatim>\<open>total_failures\<close> not at all. With at least one attempt,
  an operation that succeeds on its first invocation has its result returned after
  that single invocation, with no sleep.
\<close>

theorem retry_then_success:
  fixes func :: "nat \<Rightarrow> exn + 'r"
  shows "(max_retries h = 3 \<and> finite_float (exponential_base h)
       \<and> func 0 = Inl ea \<and> isinstance ea ''Exception'' \<and> is_retryable h ea
       \<and> func 1 = Inl eb \<and> isinstance eb ''Exception'' \<and> is_retryable h eb
       \<and> func 2 = Inr v \<longrightarrow>
         outcome (execute_with_retry h func rnd) = Inr v
         \<and> invocations (execute_with_retry h func rnd) = 3
         \<and> total_attempts (handler (execute_with_retry h func rnd)) = total_attempts h + 3
         \<and> total_retries (handler (execute_with_retry h func rnd)) = total_retries h + 2
         \<and> total_failures (handler (execute_with_retry h func rnd)) = total_failures h
         \<and> length (sleeps (execute_with_retry h func rnd)) = 2)
    \<and> (1 \<le> max_retries h \<and> func 0 = Inr v \<longrightarrow>
         outcome (execute_with_retry h func rnd) = Inr v
         \<and> invocations (execute_with_retry h func rnd) = 1
         \<and> total_attempts (handler (execute_with_retry h func rnd)) = total_attempts h + 1
         \<and> total_retries (handler (execute_with_retry h func rnd)) = total_retries h
         \<and> total_failures (handler (execute_with_retry h func rnd)) = total_failures h
         \<and> sleeps (execute_with_retry h func rnd) = [])"
proof (intro conjI impI)
  assume a: "max_retries h = 3 \<and> finite_float (exponential_base h)
       \<and> func 0 = Inl ea \<and> isinstance ea ''Exception'' \<and> is_retryable h ea
       \<and> func 1 = Inl eb \<and> isinstance eb ''Exception'' \<and> is_retryable h eb
       \<and> func 2 = Inr v"
  then have f: "func 0 = Inl ea" "func (Suc 0) = Inl eb" "func (Suc (Suc 0)) = Inr v"
    by (simp_all add: numeral_2_eq_2)
  have l: "[0..<nat (max_retries h)] = [0, Suc 0, Suc (Suc 0)]"
    using a by (simp add: upt_conv_Cons)
  obtain d0 where d0: "calculate_delay h 0 (rnd 0) = Inr d0"
    using calculate_delay_first by blast
  obtain d1 where d1: "calculate_delay h (Suc 0) (rnd (Suc 0)) = Inr d1"
    using calculate_delay_second a by blast
  have r: "execute_with_retry h func rnd =
      \<lparr> outcome = Inr v,
        handler = h\<lparr> total_attempts := total_attempts h + 3,
                     total_retries := total_retries h + 2 \<rparr>,
        invocations = 3, sleeps = [d0, d1] \<rparr>"
    unfolding execute_with_retry_def l using a f d0 d1 by (simp add: Let_def)
  show "outcome (execute_with_retry h func rnd) = Inr v"
    and "invocations (execute_with_retry h func rnd) = 3"
    and "total_attempts (handler (execute_with_retry h func rnd)) = total_attempts h + 3"
    and "total_retries (handler (execute_with_retry h func rnd)) = total_retries h + 2"
    and "total_failures (handler (execute_with_retry h func rnd)) = total_failures h"
    and "length (sleeps (execute_with_retry h func rnd)) = 2"
    unfolding r by simp_all
next
  assume a: "1 \<le> max_retries h \<and> func 0 = Inr v"
  then have l: "[0..<nat (max_retries h)] = 0 # [1..<nat (max_retries h)]"
    by (intro upt_first) simp
  have r: "execute_with_retry h func rnd =
      \<lparr> outcome = Inr v, handler = h\<lparr> total_attempts := total_attempts h + 1 \<rparr>,
        invocations = 1, sleeps = [] \<rparr>"
    unfolding execute_with_retry_def l using a by (simp add: Let_def)
  show "outcome (execute_with_retry h func rnd) = Inr v"
    and "invocations (execute_with_retry h func rnd) = 1"
    and "total_attempts (handler (execute_with_retry h func rnd)) = total_attempts h + 1"
    and "total_retries (handler (execute_with_retry h func rnd)) = total_retries h"
    and "total_failures (handler (execute_with_retry h func rnd)) = total_failures h"
    and "sleeps (execute_with_retry h func rnd) = []"
    unfolding r by simp_all
qed

text \<open>
  Claim C5. When the retryable classes are configured and the first invocation raises
  an exception that is an instance of none of them, \<^verbatim>\<open>execute_with_retry\<close> raises that
  exception after this one invocation, without any sleep and whatever the number of
  attempts is. The exhaustion branch is not reached: \<^verbatim>\<open>total_failures\<close> is unchanged
  even when there is a single attempt, and so is \<^verbatim>\<open>total_retries\<close>.
\<close>

theorem non_retryable_propagates:
  fixes func :: "nat \<Rightarrow> exn + 'r"
  assumes "1 \<le> max_retries h" and "retryable_exceptions h = Some clss"
    and "func 0 = Inl e" and "\<not> isinstance_tuple e clss"
  shows "outcome (execute_with_retry h func rnd) = Inl e
    \<and> invocations (execute_with_retry h func rnd) = 1
    \<and> sleeps (execute_with_retry h func rnd) = []
    \<and> total_attempts (handler (execute_with_retry h func rnd)) = total_attempts h + 1
    \<and> total_retries (handler (execute_with_retry h func rnd)) = total_retries h
    \<and> total_failures (handler (execute_with_retry h func rnd)) = total_failures h"
proof -
  have l: "[0..<nat (max_retries h)] = 0 # [1..<nat (max_retries h)]"
    using assms(1) by (intro upt_first) simp
  have n: "\<not> is_retryable h e" using assms(2,4) by (simp add: is_retryable_def)
  have r: "execute_with_retry h func rnd =
      \<lparr> outcome = Inl e, handler = h\<lparr> total_attempts := total_attempts h + 1 \<rparr>,
        invocations = 1, sleeps = [] \<rparr>"
    unfolding execute_with_retry_def l using assms(3) n by (simp add: Let_def)
  show ?thesis unfolding r by simp
qed

theorem retry_then_success_witness:
  "outcome (execute_with_retry (init_retry_handler 3 1 60 2 True None)
      (\<lambda>i. if i < 2 then Inl (ValueError ''transient'') else Inr (42 :: nat))
      (\<lambda>k. 1 / 2)) = Inr 42
   \<and> invocations (execute_with_retry (init_retry_handler 3 1 60 2 True None)
      (\<lambda>i. if i < 2 then Inl (ValueError ''transient'') else Inr (42 :: nat))
      (\<lambda>k. 1 / 2)) = 3
   \<and> total_attempts (handler (execute_with_retry (init_retry_handler 3 1 60 2 True None)
      (\<lambda>i. if i < 2 then Inl (ValueError ''transient'') else Inr (42 :: nat))
      (\<lambda>k. 1 / 2))) = 3
   \<and> total_retries (handler (execute_with_retry (init_retry_handler 3 1 60 2 True None)
      (\<lambda>i. if i < 2 then Inl (ValueError ''transient'') else Inr (42 :: nat))
      (\<lambda>k. 1 / 2))) = 2
   \<and> outcome (execute_with_retry (init_retry_handler 3 1 60 2 True None)
      (\<lambda>i. Inr (7 :: nat)) (\<lambda>k. 1 / 2)) = Inr 7
   \<and> invocations (execute_with_retry (init_retry_handler 3 1 60 2 True None)
      (\<lambda>i. Inr (7 :: nat)) (\<lambda>k. 1 / 2)) = 1"
proof -
  let ?h = "init_retry_handler 3 1 60 2 True None"
  have ff: "finite_float (exponential_base ?h)"
    using two_power_no_overflow [of 1] by (simp add: finite_float_def init_retry_handler_def)
  have h: "max_retries ?h = 3" "retryable_exceptions ?h = None" "total_attempts ?h = 0"
    "total_retries ?h = 0"
    by (simp_all add: init_retry_handler_def)
  show ?thesis
    using retry_then_success [where h = ?h and ea = "ValueError ''transient''"
        and eb = "ValueError ''transient''" and v = 42 and rnd = "\<lambda>k. 1 / 2"
        and func = "\<lambda>i. if i < 2 then Inl (ValueError ''transient'') else Inr (42 :: nat)"]
      retry_then_success [where h = ?h and v = 7 and rnd = "\<lambda>k. 1 / 2"
        and func = "\<lambda>i. Inr (7 :: nat)"]
      ff h
    by (simp add: ValueError_retryable)
qed

theorem non_retryable_propagates_witness:
  "1 \<le> max_retries (init_retry_handler 3 1 60 2 True (Some [''ConnectionError'']))
   \<and> \<not> isinstance_tuple (ValueError ''bad input'') [''ConnectionError'']
   \<and> outcome (execute_with_retry (init_retry_handler 3 1 60 2 True (Some [''ConnectionError'']))
        (\<lambda>i. Inl (ValueError ''bad input'') :: exn + nat) (\<lambda>k. 1 / 2))
       = Inl (ValueError ''bad input'')
   \<and> invocations (execute_with_retry
        (init_retry_handler 3 1 60 2 True (Some [''ConnectionError'']))
        (\<lambda>i. Inl (ValueError ''bad input'') :: exn + nat) (\<lambda>k. 1 / 2)) = 1
   \<and> sleeps (execute_with_retry (init_retry_handler 3 1 60 2 True (Some [''ConnectionError'']))
        (\<lambda>i. Inl (ValueError ''bad input'') :: exn + nat) (\<lambda>k. 1 / 2)) = []"
proof -
  let ?h = "init_retry_handler 3 1 60 2 True (Some [''ConnectionError''])"
  have m: "1 \<le> max_retries ?h" and r: "retryable_exceptions ?h = Some [''ConnectionError'']"
    by (simp_all add: init_retry_handler_def)
  have n: "\<not> isinstance_tuple (ValueError ''bad input'') [''ConnectionError'']"
    by (simp add: isinstance_tuple_def isinstance_def ValueError_def)
  show ?thesis
    using non_retryable_propagates [OF m r _ n,
        of "\<lambda>i. Inl (ValueError ''bad input'') :: exn + nat" "\<lambda>k. 1 / 2"] m n
    by simp
qed

section \<open>Properties of the CircuitBreaker\<close>

lemma call_failure:
  assumes "state b \<noteq> OPEN" and "func now = (Inl e, u)" and "isinstance e (expected_exception b)"
  shows "call b func now =
           \<lparr> call_outcome = Inl e, breaker = record_failure b u, clock = u, invoked = True \<rparr>"
  using assms by (simp add: call_def check_recovery_def)

lemma call_rejected:
  assumes "state b = OPEN" and "last_failure_time b = Some t" and "now - t < recovery_timeout b"
  shows "call b func now =
           \<lparr> call_outcome = Inl (PlainException ''Circuit breaker is OPEN. Service unavailable.''),
             breaker = b, clock = now, invoked = False \<rparr>"
  using assms by (simp add: call_def check_recovery_def should_attempt_reset_def)

lemma check_recovery_half_open:
  assumes "state b = OPEN" and "last_failure_time b = Some t" and "recovery_timeout b \<le> now - t"
  shows "check_recovery b now = Inr (b\<lparr> state := HALF_OPEN \<rparr>)"
  using assms by (simp add: check_recovery_def should_attempt_reset_def)

lemma call_recovered:
  assumes "state b = OPEN" and "last_failure_time b = Some t" and "recovery_timeout b \<le> now - t"
    and "func now = (Inr v, u)"
  shows "call b func now =
           \<lparr> call_outcome = Inr v, breaker = reset (b\<lparr> state := HALF_OPEN \<rparr>), clock = u,
             invoked = True \<rparr>"
  using assms by (simp add: call_def check_recovery_half_open)

lemma call_half_open_invoked:
  assumes "state b = OPEN" and "last_failure_time b = Some t" and "recovery_timeout b \<le> now - t"
  shows "invoked (call b func now)"
  using assms
  by (cases "func now"; cases "fst (func now)")
     (auto simp add: call_def check_recovery_half_open split: sum.splits)

lemma three_failures:
  fixes fa fb fc :: "real \<Rightarrow> (exn + 'r) \<times> real"
  assumes "failure_threshold b = 3" and "state b = CLOSED" and "failure_count b = 0"
    and "fa ta = (Inl ea, ua)" and "isinstance ea (expected_exception b)"
    and "fb tb = (Inl eb, ub)" and "isinstance eb (expected_exception b)"
    and "fc tc = (Inl ec, uc)" and "isinstance ec (expected_exception b)"
  shows "breaker (call (breaker (call (breaker (call b fa ta)) fb tb)) fc tc)
           = b\<lparr> failure_count := 3, last_failure_time := Some uc, state := OPEN \<rparr>"
    and "call_outcome (call b fa ta) = Inl ea"
    and "call_outcome (call (breaker (call b fa ta)) fb tb) = Inl eb"
    and "call_outcome (call (breaker (call (breaker (call b fa ta)) fb tb)) fc tc) = Inl ec"
    and "state (breaker (call b fa ta)) = CLOSED"
    and "state (breaker (call (breaker (call b fa ta)) fb tb)) = CLOSED"
proof -
  have c1: "call b fa ta = \<lparr> call_outcome = Inl ea, breaker = record_failure b ua, clock = ua,
      invoked = True \<rparr>"
    using assms by (intro call_failure) simp_all
  have b1: "record_failure b ua = b\<lparr> failure_count := 1, last_failure_time := Some ua \<rparr>"
    using assms by (simp add: record_failure_def Let_def)
  let ?b1 = "b\<lparr> failure_count := 1, last_failure_time := Some ua \<rparr>"
  have c2: "call ?b1 fb tb = \<lparr> call_outcome = Inl eb, breaker = record_failure ?b1 ub, clock = ub,
      invoked = True \<rparr>"
    using assms by (intro call_failure) simp_all
  have b2: "record_failure ?b1 ub = b\<lparr> failure_count := 2, last_failure_time := Some ub \<rparr>"
    using assms by (simp add: record_failure_def Let_def)
  let ?b2 = "b\<lparr> failure_count := 2, last_failure_time := Some ub \<rparr>"
  have c3: "call ?b2 fc tc = \<lparr> call_outcome = Inl ec, breaker = record_failure ?b2 uc, clock = uc,
      invoked = True \<rparr>"
    using assms by (intro call_failure) simp_all
  have b3: "record_failure ?b2 uc
      = b\<lparr> failure_count := 3, last_failure_time := Some uc, state := OPEN \<rparr>"
    using assms by (simp add: record_failure_def Let_def)
  show "breaker (call (breaker (call (breaker (call b fa ta)) fb tb)) fc tc)
           = b\<lparr> failure_count := 3, last_failure_time := Some uc, state := OPEN \<rparr>"
    by (simp add: c1 b1 c2 b2 c3 b3)
  show "call_outcome (call b fa ta) = Inl ea" by (simp add: c1)
  show "call_outcome (call (breaker (call b fa ta)) fb tb) = Inl eb" by (simp add: c1 b1 c2)
  show "call_outcome (call (breaker (call (breaker (call b fa ta)) fb tb)) fc tc) = Inl ec"
    by (simp add: c1 b1 c2 b2 c3)
  show "state (breaker (call b fa ta)) = CLOSED" using assms by (simp add: c1 b1)
  show "state (breaker (call (breaker (call b fa ta)) fb tb)) = CLOSED"
    using assms by (simp add: c1 b1 c2 b2)
qed


text \<open>
  Claim C2. A breaker with threshold 3 that is closed with no failure counted, and on
  which three calls in a row raise the expected exception, is open after the third,
  with three failures counted and the time of the third failure recorded. A call made
  while less than the recovery timeout has passed since that failure raises the
  circuit-open exception, does not invoke its operation and leaves the breaker as it
  is. A call made once the timeout has passed moves the breaker to \<^verbatim>\<open>HALF_OPEN\<close> and
  invokes its operation; if the operation succeeds, its result is returned and the
  breaker is closed, with no failure counted and no failure time.
\<close>

theorem circuit_breaker_cycle:
  fixes fa fb fc fd fe :: "real \<Rightarrow> (exn + 'r) \<times> real"
  assumes "failure_threshold b = 3" and "state b = CLOSED" and "failure_count b = 0"
    and "fa ta = (Inl ea, ua)" and "isinstance ea (expected_exception b)"
    and "fb tb = (Inl eb, ub)" and "isinstance eb (expected_exception b)"
    and "fc tc = (Inl ec, uc)" and "isinstance ec (expected_exception b)"
  shows "let b3 = breaker (call (breaker (call (breaker (call b fa ta)) fb tb)) fc tc) in
     state b3 = OPEN \<and> failure_count b3 = 3 \<and> last_failure_time b3 = Some uc
     \<and> (td - uc < recovery_timeout b \<longrightarrow>
          \<not> invoked (call b3 fd td)
          \<and> call_outcome (call b3 fd td)
              = Inl (PlainException ''Circuit breaker is OPEN. Service unavailable.'')
          \<and> breaker (call b3 fd td) = b3)
     \<and> (recovery_timeout b \<le> te - uc \<longrightarrow>
          check_recovery b3 te = Inr (b3\<lparr> state := HALF_OPEN \<rparr>)
          \<and> invoked (call b3 fe te)
          \<and> (fe te = (Inr v, ue) \<longrightarrow>
               call_outcome (call b3 fe te) = Inr v
               \<and> state (breaker (call b3 fe te)) = CLOSED
               \<and> failure_count (breaker (call b3 fe te)) = 0
               \<and> last_failure_time (breaker (call b3 fe te)) = None))"
proof -
  let ?b3 = "b\<lparr> failure_count := 3, last_failure_time := Some uc, state := OPEN \<rparr>"
  have b3: "breaker (call (breaker (call (breaker (call b fa ta)) fb tb)) fc tc) = ?b3"
    using assms by (rule three_failures(1))
  have s: "state ?b3 = OPEN" and l: "last_failure_time ?b3 = Some uc"
    and r: "recovery_timeout ?b3 = recovery_timeout b"
    by simp_all
  have rej: "\<not> invoked (call ?b3 fd td)
      \<and> call_outcome (call ?b3 fd td)
          = Inl (PlainException ''Circuit breaker is OPEN. Service unavailable.'')
      \<and> breaker (call ?b3 fd td) = ?b3" if "td - uc < recovery_timeout b"
    using call_rejected [OF s l, of td fd] that by simp
  have half: "check_recovery ?b3 te = Inr (?b3\<lparr> state := HALF_OPEN \<rparr>)"
    and inv: "invoked (call ?b3 fe te)" if "recovery_timeout b \<le> te - uc"
    using check_recovery_half_open [OF s l, of te] call_half_open_invoked [OF s l, of te fe] that
    by simp_all
  have rec: "call_outcome (call ?b3 fe te) = Inr v
      \<and> state (breaker (call ?b3 fe te)) = CLOSED
      \<and> failure_count (breaker (call ?b3 fe te)) = 0
      \<and> last_failure_time (breaker (call ?b3 fe te)) = None"
    if "recovery_timeout b \<le> te - uc" and "fe te = (Inr v, ue)"
    using call_recovered [of ?b3 uc te fe v ue] that by (simp add: reset_def)
  show ?thesis
    unfolding b3 Let_def using rej half inv rec by simp
qed

theorem circuit_breaker_cycle_witness:
  "state (breaker (call (breaker (call (breaker (call (init_circuit_breaker 3 60 ''Exception'')
       (\<lambda>t. (Inl (ValueError ''down'') :: exn + nat, t + 1)) 0))
       (\<lambda>t. (Inl (ValueError ''down'') :: exn + nat, t + 1)) 2))
       (\<lambda>t. (Inl (ValueError ''down'') :: exn + nat, t + 1)) 4)) = OPEN
   \<and> \<not> invoked (call (breaker (call (breaker (call (breaker (call
       (init_circuit_breaker 3 60 ''Exception'')
       (\<lambda>t. (Inl (ValueError ''down'') :: exn + nat, t + 1)) 0))
       (\<lambda>t. (Inl (ValueError ''down'') :: exn + nat, t + 1)) 2))
       (\<lambda>t. (Inl (ValueError ''down'') :: exn + nat, t + 1)) 4))
       (\<lambda>t. (Inr 1 :: exn + nat, t + 1)) 5)
   \<and> invoked (call (breaker (call (breaker (call (breaker (call
       (init_circuit_breaker 3 60 ''Exception'')
       (\<lambda>t. (Inl (ValueError ''down'') :: exn + nat, t + 1)) 0))
       (\<lambda>t. (Inl (ValueError ''down'') :: exn + nat, t + 1)) 2))
       (\<lambda>t. (Inl (ValueError ''down'') :: exn + nat, t + 1)) 4))
       (\<lambda>t. (Inr 1 :: exn + nat, t + 1)) 65)
   \<and> state (breaker (call (breaker (call (breaker (call (breaker (call
       (init_circuit_breaker 3 60 ''Exception'')
       (\<lambda>t. (Inl (ValueError ''down'') :: exn + nat, t + 1)) 0))
       (\<lambda>t. (Inl (ValueError ''down'') :: exn + nat, t + 1)) 2))
       (\<lambda>t. (Inl (ValueError ''down'') :: exn + nat, t + 1)) 4))
       (\<lambda>t. (Inr 1 :: exn + nat, t + 1)) 65)) = CLOSED
   \<and> failure_count (breaker (call (breaker (call (breaker (call (breaker (call
       (init_circuit_breaker 3 60 ''Exception'')
       (\<lambda>t. (Inl (ValueError ''down'') :: exn + nat, t + 1)) 0))
       (\<lambda>t. (Inl (ValueError ''down'') :: exn + nat, t + 1)) 2))
       (\<lambda>t. (Inl (ValueError ''down'') :: exn + nat, t + 1)) 4))
       (\<lambda>t. (Inr 1 :: exn + nat, t + 1)) 65)) = 0"
proof -
  let ?b = "init_circuit_breaker 3 60 ''Exception''"
  let ?f = "\<lambda>t::real. (Inl (ValueError ''down'') :: exn + nat, t + 1)"
  have b: "failure_threshold ?b = 3" "state ?b = CLOSED" "failure_count ?b = 0"
    by (simp_all add: init_circuit_breaker_def)
  have i: "isinstance (ValueError ''down'') (expected_exception ?b)"
    by (simp add: init_circuit_breaker_def ValueError_retryable)
  have rt: "recovery_timeout ?b = 60" by (simp add: init_circuit_breaker_def)
  have f: "?f 0 = (Inl (ValueError ''down''), 1)" "?f 2 = (Inl (ValueError ''down''), 3)"
    "?f 4 = (Inl (ValueError ''down''), 5)"
    by simp_all
  show ?thesis
    using circuit_breaker_cycle [where b = ?b and fa = ?f and fb = ?f and fc = ?f
          and ta = 0 and tb = 2 and tc = 4 and ua = 1 and ub = 3 and uc = 5
          and ea = "ValueError ''down''" and eb = "ValueError ''down''"
          and ec = "ValueError ''down''"
          and td = 5 and te = 65 and fd = "\<lambda>t. (Inr 1 :: exn + nat, t + 1)"
          and fe = "\<lambda>t. (Inr 1 :: exn + nat, t + 1)" and v = 1 and ue = 66] b i
    by (simp add: Let_def rt)
qed

section \<open>Properties of the RateLimiter\<close>

text \<open>
  One call on a bucket that holds a whole number \<open>m + 1\<close> of tokens and was refilled at
  the current time, with no base delay: no wait, one token less, the clock unchanged.
\<close>

lemma wait_with_token:
  assumes "\<not> 0 < base_delay rl" and "real (Suc m) \<le> real_of_int (burst_size rl)"
    and "token_bucket rl = Some (real (Suc m), now)
         \<or> (token_bucket rl = None \<and> real_of_int (burst_size rl) = real (Suc m))"
  shows "\<exists>rl'. wait_with_token_bucket rl now = (Inr 0, rl', now)
           \<and> token_bucket rl' = Some (real m, now)
           \<and> base_delay rl' = base_delay rl \<and> burst_size rl' = burst_size rl
           \<and> requests_per_second rl' = requests_per_second rl"
  using assms by (auto simp add: wait_with_token_bucket_def Let_def)

lemma wait_repeatedly_burst:
  assumes "\<not> 0 < base_delay rl" and "real m \<le> real_of_int (burst_size rl)"
    and "token_bucket rl = Some (real m, now)
         \<or> (token_bucket rl = None \<and> real_of_int (burst_size rl) = real m)"
    and "k \<le> m"
  shows "\<exists>rl'. wait_repeatedly k rl now = (Inr (replicate k 0), rl', now)
           \<and> tokens rl' = real (m - k)
           \<and> (0 < k \<longrightarrow> token_bucket rl' = Some (real (m - k), now))
           \<and> (k = 0 \<longrightarrow> rl' = rl)
           \<and> base_delay rl' = base_delay rl \<and> burst_size rl' = burst_size rl
           \<and> requests_per_second rl' = requests_per_second rl"
  using assms
proof (induction k arbitrary: rl m)
  case 0
  then show ?case by (auto simp: tokens_def)
next
  case (Suc k)
  then obtain m' where m: "m = Suc m'" by (cases m) auto
  obtain rl1 where 1: "wait_with_token_bucket rl now = (Inr 0, rl1, now)"
    "token_bucket rl1 = Some (real m', now)" "base_delay rl1 = base_delay rl"
    "burst_size rl1 = burst_size rl" "requests_per_second rl1 = requests_per_second rl"
    using wait_with_token [of rl m' now] Suc.prems unfolding m by blast
  have "\<exists>rl'. wait_repeatedly k rl1 now = (Inr (replicate k 0), rl', now)
           \<and> tokens rl' = real (m' - k)
           \<and> (0 < k \<longrightarrow> token_bucket rl' = Some (real (m' - k), now))
           \<and> (k = 0 \<longrightarrow> rl' = rl1)
           \<and> base_delay rl' = base_delay rl1 \<and> burst_size rl' = burst_size rl1
           \<and> requests_per_second rl' = requests_per_second rl1"
    using Suc.prems 1 unfolding m by (intro Suc.IH) auto
  then obtain rl' where 2: "wait_repeatedly k rl1 now = (Inr (replicate k 0), rl', now)"
    "tokens rl' = real (m' - k)" "0 < k \<longrightarrow> token_bucket rl' = Some (real (m' - k), now)"
    "k = 0 \<longrightarrow> rl' = rl1"
    "base_delay rl' = base_delay rl1" "burst_size rl' = burst_size rl1"
    "requests_per_second rl' = requests_per_second rl1"
    by blast
  have "wait_repeatedly (Suc k) rl now = (Inr (replicate (Suc k) 0), rl', now)"
    using 1 2 by simp
  moreover have "token_bucket rl' = Some (real (m - Suc k), now)"
    using 1 2 unfolding m by (cases "k = 0") auto
  ultimately show ?case using 1 2 unfolding m by (auto simp: tokens_def)
qed

text \<open>A call on an empty bucket refilled at the current time waits for one token.\<close>

lemma wait_without_token:
  assumes "base_delay rl = 0" and "0 < requests_per_second rl"
    and "token_bucket rl = Some (0, now)" and "1 \<le> burst_size rl"
  shows "\<exists>rl'. wait_with_token_bucket rl now
             = (Inr (1 / requests_per_second rl), rl', now + 1 / requests_per_second rl)
           \<and> tokens rl' = 0"
  using assms by (auto simp add: wait_with_token_bucket_def Let_def tokens_def)



text \<open>
  The bounds on the token count are kept by every call at a time that is not before the
  last refill, whatever the base delay is.
\<close>

lemma token_bounds_kept:
  assumes "0 < requests_per_second rl" and "0 \<le> base_delay rl" and "1 \<le> burst_size rl"
    and "token_bucket rl = Some (tk, refill)"
    and "0 \<le> tk" and "tk \<le> real_of_int (burst_size rl)" and "refill \<le> now"
    and "wait_with_token_bucket rl now = (r, rl', now')"
  shows "(\<exists>w. r = Inr w \<and> 0 \<le> w)
    \<and> (\<exists>tk' refill'. token_bucket rl' = Some (tk', refill') \<and> refill' \<le> now'
          \<and> 0 \<le> tk' \<and> tk' \<le> real_of_int (burst_size rl'))
    \<and> now \<le> now'
    \<and> burst_size rl' = burst_size rl \<and> base_delay rl' = base_delay rl
    \<and> requests_per_second rl' = requests_per_second rl"
proof -
  define t1 where
    "t1 = min (real_of_int (burst_size rl)) (tk + (now - refill) * requests_per_second rl)"
  have "0 \<le> (now - refill) * requests_per_second rl" using assms(1,7) by simp
  then have t1: "0 \<le> t1" "t1 \<le> real_of_int (burst_size rl)"
    using assms(3,5) by (simp_all add: t1_def)
  show ?thesis
  proof (cases "1 \<le> t1")
    case True
    define waited where "waited = (if 0 < base_delay rl then base_delay rl else 0)"
    have w: "0 \<le> waited" by (simp add: waited_def)
    have "wait_with_token_bucket rl now =
        (Inr waited,
         rl\<lparr> token_bucket := Some (t1 - 1, now),
              request_times := deque_append 100 (request_times rl) (now + waited),
              total_requests := total_requests rl + 1,
              total_wait_time := total_wait_time rl + waited \<rparr>,
         now + waited)"
      unfolding wait_with_token_bucket_def Let_def assms(4) option.case prod.case
        t1_def [symmetric]
      using True by (simp add: waited_def)
    then have "r = Inr waited" "now' = now + waited" "token_bucket rl' = Some (t1 - 1, now)"
      "burst_size rl' = burst_size rl" "base_delay rl' = base_delay rl"
      "requests_per_second rl' = requests_per_second rl"
      using assms(8) by auto
    then show ?thesis using True t1 w by simp
  next
    case False
    define wait_time where "wait_time = (1 - t1) / requests_per_second rl + base_delay rl"
    have "0 \<le> (1 - t1) / requests_per_second rl" using False assms(1) by simp
    then have w: "0 \<le> wait_time" using assms(2) by (simp add: wait_time_def)
    have "wait_with_token_bucket rl now =
        (Inr wait_time,
         rl\<lparr> token_bucket := Some (0, now + wait_time),
              request_times := deque_append 100 (request_times rl) (now + wait_time),
              total_requests := total_requests rl + 1,
              total_wait_time := total_wait_time rl + wait_time \<rparr>,
         now + wait_time)"
      unfolding wait_with_token_bucket_def Let_def assms(4) option.case prod.case
        t1_def [symmetric]
      using False assms(1) w by (simp add: wait_time_def not_less)
    then have "r = Inr wait_time" "now' = now + wait_time"
      "token_bucket rl' = Some (0, now + wait_time)"
      "burst_size rl' = burst_size rl" "base_delay rl' = base_delay rl"
      "requests_per_second rl' = requests_per_second rl"
      using assms(8) by auto
    then show ?thesis using w assms(3) by simp
  qed
qed


lemma wait_repeatedly_snoc:
  assumes "wait_repeatedly k rl now = (Inr ws, rl1, now1)"
    and "wait_with_token_bucket rl1 now1 = (Inr w, rl2, now2)"
  shows "wait_repeatedly (Suc k) rl now = (Inr (ws @ [w]), rl2, now2)"
  using assms
proof (induction k arbitrary: rl now ws)
  case 0
  then show ?case by simp
next
  case (Suc k)
  obtain r0 rl0 now0 where c: "wait_with_token_bucket rl now = (r0, rl0, now0)"
    by (cases "wait_with_token_bucket rl now") auto
  show ?case
  proof (cases r0)
    case (Inl e)
    then show ?thesis using Suc.prems(1) c by simp
  next
    case (Inr w0)
    obtain r1 rl1' now1' where d: "wait_repeatedly k rl0 now0 = (r1, rl1', now1')"
      by (cases "wait_repeatedly k rl0 now0") auto
    show ?thesis
    proof (cases r1)
      case (Inl e)
      then show ?thesis using Suc.prems(1) c Inr d by simp
    next
      case ws': (Inr ws')
      then have e: "ws = w0 # ws'" "rl1' = rl1" "now1' = now1"
        using Suc.prems(1) c Inr d by simp_all
      have "wait_repeatedly (Suc k) rl0 now0 = (Inr (ws' @ [w]), rl2, now2)"
        using Suc.IH [of rl0 now0 ws'] d ws' e Suc.prems(2) by simp
      then show ?thesis using c Inr e by (simp del: wait_repeatedly.simps(2))
          (simp add: wait_repeatedly.simps(2) [of "Suc k"])
    qed
  qed
qed

lemma init_rate_limiter_fields:
  assumes "rps \<noteq> 0" and "1 \<le> b" and "init_rate_limiter rps bd (Some b) = Inr rl"
  shows "requests_per_second rl = rps" and "base_delay rl = bd" and "burst_size rl = b"
    and "token_bucket rl = None"
  using assms by (auto simp: init_rate_limiter_def)

text \<open>
  Claim C9. A limiter built with a positive rate, no base delay and a burst size
  \<open>b \<ge> 1\<close> answers the first \<open>b\<close> calls made at one and the same time with a wait of
  0, and leaves \<open>b - k\<close> tokens after \<open>k\<close> of them; one more call at that time waits
  \<open>1 / rate\<close>, which is positive, and leaves no token. After each of these \<open>b + 1\<close>
  calls the token count lies between 0 and \<open>b\<close>.
\<close>

theorem token_bucket_burst:
  assumes "0 < rps" and "1 \<le> b" and "init_rate_limiter rps 0 (Some b) = Inr rl"
  shows "(\<forall>k \<le> nat b. \<exists>rl'. wait_repeatedly k rl now = (Inr (replicate k 0), rl', now)
              \<and> tokens rl' = real_of_int b - real k)
    \<and> (\<exists>rl'. wait_repeatedly (Suc (nat b)) rl now
              = (Inr (replicate (nat b) 0 @ [1 / rps]), rl', now + 1 / rps)
          \<and> tokens rl' = 0)
    \<and> 0 < 1 / rps
    \<and> (\<forall>k \<le> Suc (nat b). 0 \<le> tokens (fst (snd (wait_repeatedly k rl now)))
              \<and> tokens (fst (snd (wait_repeatedly k rl now))) \<le> real_of_int b)"
proof -
  have f: "requests_per_second rl = rps" "base_delay rl = 0" "burst_size rl = b"
    "token_bucket rl = None"
    using init_rate_limiter_fields [OF _ assms(2,3)] assms(1) by simp_all
  have b: "real (nat b) = real_of_int b" using assms(2) by simp
  have pre: "\<not> 0 < base_delay rl" "real (nat b) \<le> real_of_int (burst_size rl)"
    "token_bucket rl = Some (real (nat b), now)
       \<or> (token_bucket rl = None \<and> real_of_int (burst_size rl) = real (nat b))"
    using f b by simp_all
  note burst = wait_repeatedly_burst [OF pre]
  have 1: "\<exists>rl'. wait_repeatedly k rl now = (Inr (replicate k 0), rl', now)
              \<and> tokens rl' = real_of_int b - real k" if "k \<le> nat b" for k
  proof -
    from burst [OF that] obtain rl' where
      *: "wait_repeatedly k rl now = (Inr (replicate k 0), rl', now)
           \<and> tokens rl' = real (nat b - k)
           \<and> (0 < k \<longrightarrow> token_bucket rl' = Some (real (nat b - k), now))
           \<and> (k = 0 \<longrightarrow> rl' = rl)
           \<and> base_delay rl' = base_delay rl \<and> burst_size rl' = burst_size rl
           \<and> requests_per_second rl' = requests_per_second rl" ..
    have "real (nat b - k) = real_of_int b - real k"
      using that b by (simp add: of_nat_diff)
    with * have "wait_repeatedly k rl now = (Inr (replicate k 0), rl', now)
              \<and> tokens rl' = real_of_int b - real k"
      by simp
    then show ?thesis ..
  qed
  have pos: "0 < nat b" using assms(2) by simp
  from burst [OF order_refl] obtain rlb where
    *: "wait_repeatedly (nat b) rl now = (Inr (replicate (nat b) 0), rlb, now)
           \<and> tokens rlb = real (nat b - nat b)
           \<and> (0 < nat b \<longrightarrow> token_bucket rlb = Some (real (nat b - nat b), now))
           \<and> (nat b = 0 \<longrightarrow> rlb = rl)
           \<and> base_delay rlb = base_delay rl \<and> burst_size rlb = burst_size rl
           \<and> requests_per_second rlb = requests_per_second rl" ..
  from * have r: "wait_repeatedly (nat b) rl now = (Inr (replicate (nat b) 0), rlb, now)"
    by (rule conjunct1)
  from * have tb: "0 < nat b \<longrightarrow> token_bucket rlb = Some (real (nat b - nat b), now)"
    and keep: "base_delay rlb = base_delay rl" "burst_size rlb = burst_size rl"
      "requests_per_second rlb = requests_per_second rl"
    by simp_all
  have rlb: "base_delay rlb = 0" "0 < requests_per_second rlb"
    "token_bucket rlb = Some (0, now)" "1 \<le> burst_size rlb"
    using tb pos keep f assms(1,2) by simp_all
  have rps: "requests_per_second rlb = rps" using keep f by simp
  from wait_without_token [OF rlb] obtain rl' where
    **: "wait_with_token_bucket rlb now
             = (Inr (1 / requests_per_second rlb), rl', now + 1 / requests_per_second rlb)
           \<and> tokens rl' = 0" ..
  from ** have last: "wait_with_token_bucket rlb now = (Inr (1 / rps), rl', now + 1 / rps)"
      "tokens rl' = 0"
    unfolding rps by (rule conjunct1, rule conjunct2)
  have 2: "wait_repeatedly (Suc (nat b)) rl now
              = (Inr (replicate (nat b) 0 @ [1 / rps]), rl', now + 1 / rps)"
    using r last(1) by (rule wait_repeatedly_snoc)
  have 3: "0 \<le> tokens (fst (snd (wait_repeatedly k rl now)))
              \<and> tokens (fst (snd (wait_repeatedly k rl now))) \<le> real_of_int b"
    if "k \<le> Suc (nat b)" for k
  proof (cases "k \<le> nat b")
    case True
    from 1 [OF True] obtain rlk where
      k: "wait_repeatedly k rl now = (Inr (replicate k 0), rlk, now)
           \<and> tokens rlk = real_of_int b - real k" ..
    then have "fst (snd (wait_repeatedly k rl now)) = rlk" by (simp only: snd_conv fst_conv)
    moreover have "real k \<le> real_of_int b" using True b by simp
    ultimately show ?thesis using k by simp
  next
    case False
    then have "k = Suc (nat b)" using that by simp
    moreover have "fst (snd (wait_repeatedly (Suc (nat b)) rl now)) = rl'"
      using 2 by (simp only: snd_conv fst_conv)
    ultimately show ?thesis using last(2) assms(2) by (simp only:) simp
  qed
  show ?thesis
  proof (intro conjI allI impI)
    show "\<exists>rl'. wait_repeatedly k rl now = (Inr (replicate k 0), rl', now)
              \<and> tokens rl' = real_of_int b - real k" if "k \<le> nat b" for k
      using that by (rule 1)
    show "\<exists>rl'. wait_repeatedly (Suc (nat b)) rl now
              = (Inr (replicate (nat b) 0 @ [1 / rps]), rl', now + 1 / rps)
          \<and> tokens rl' = 0"
      using 2 last(2) by (intro exI [of _ rl'] conjI)
    show "0 < 1 / rps" using assms(1) by simp
    show "0 \<le> tokens (fst (snd (wait_repeatedly k rl now)))" if "k \<le> Suc (nat b)" for k
      using 3 [OF that] by (rule conjunct1)
    show "tokens (fst (snd (wait_repeatedly k rl now))) \<le> real_of_int b"
      if "k \<le> Suc (nat b)" for k
      using 3 [OF that] by (rule conjunct2)
  qed
qed

theorem token_bucket_burst_witness:
  "init_rate_limiter 2 0 (Some 3)
     = Inr \<lparr> requests_per_second = 2, min_interval = 1 / 2, base_delay = 0, burst_size = 3,
             last_request_time = 0, request_times = [], total_requests = 0,
             total_wait_time = 0, token_bucket = None \<rparr>
   \<and> fst (wait_repeatedly 3
         \<lparr> requests_per_second = 2, min_interval = 1 / 2, base_delay = 0, burst_size = 3,
           last_request_time = 0, request_times = [], total_requests = 0,
           total_wait_time = 0, token_bucket = None \<rparr> 10) = Inr [0, 0, 0]
   \<and> fst (wait_repeatedly 4
         \<lparr> requests_per_second = 2, min_interval = 1 / 2, base_delay = 0, burst_size = 3,
           last_request_time = 0, request_times = [], total_requests = 0,
           total_wait_time = 0, token_bucket = None \<rparr> 10) = Inr [0, 0, 0, 1 / 2]"
proof -
  let ?rl = "\<lparr> requests_per_second = 2, min_interval = 1 / 2, base_delay = 0, burst_size = 3,
           last_request_time = 0, request_times = [], total_requests = 0,
           total_wait_time = 0, token_bucket = None \<rparr>"
  have i: "init_rate_limiter 2 0 (Some 3) = Inr ?rl"
    by (simp add: init_rate_limiter_def)
  from token_bucket_burst [OF _ _ i, of 10]
  have a: "\<forall>k \<le> nat 3. \<exists>rl'. wait_repeatedly k ?rl 10 = (Inr (replicate k 0), rl', 10)
              \<and> tokens rl' = real_of_int 3 - real k"
    and b: "\<exists>rl'. wait_repeatedly (Suc (nat 3)) ?rl 10
              = (Inr (replicate (nat 3) 0 @ [1 / 2]), rl', 10 + 1 / 2) \<and> tokens rl' = 0"
    by simp_all
  have "(3::nat) \<le> nat 3" by simp
  with a obtain rl3 where "wait_repeatedly 3 ?rl 10 = (Inr (replicate 3 0), rl3, 10)"
    by blast
  then have c: "fst (wait_repeatedly 3 ?rl 10) = Inr [0, 0, 0]"
    by (simp only: fst_conv) (simp add: numeral_3_eq_3)
  have "Suc (nat 3) = 4" by simp
  with b obtain rl4 where
    "wait_repeatedly 4 ?rl 10 = (Inr (replicate (nat 3) 0 @ [1 / 2]), rl4, 10 + 1 / 2)"
    by (simp only:) blast
  then have d: "fst (wait_repeatedly 4 ?rl 10) = Inr [0, 0, 0, 1 / 2]"
    by (simp only: fst_conv) (simp add: numeral_3_eq_3)
  show ?thesis using i c d by simp
qed

section \<open>Properties of the AdaptiveRateLimiter\<close>














end
